theory Spec2Isabelle
  imports Complex_Main
begin

section \<open>Python values and errors\<close>

text \<open>
  The notebook \<^verbatim>\<open>neural_ner.ipynb\<close> is Python. A Python \<^verbatim>\<open>str\<close> is modelled as a
  \<^typ>\<open>string\<close>, one \<^typ>\<open>char\<close> per code point (so the model covers the code points
  below 256). Python integers are unbounded: ids, counts and lengths are \<^typ>\<open>nat\<close>,
  a batch size, which a caller may pass as zero or negative, is an \<^typ>\<open>int\<close>.
  Every exception the modelled code can raise is a value of \<open>error\<close>, and a function
  that can raise returns \<open>error + 'a\<close> with \<open>Inl\<close> for the exception.
\<close>

datatype unpack_failure =
    NotEnoughValues nat  \<comment> \<open>\<^verbatim>\<open>not enough values to unpack (expected 2, got n)\<close>\<close>
  | TooManyValues        \<comment> \<open>\<^verbatim>\<open>too many values to unpack (expected 2)\<close>\<close>

datatype error =
    ValueError_unpack unpack_failure  \<comment> \<open>\<^verbatim>\<open>a, b = xs\<close> with \<^verbatim>\<open>len(xs) != 2\<close>\<close>
  | ValueError_broadcast              \<comment> \<open>numpy: could not broadcast input array\<close>
  | KeyError                          \<comment> \<open>\<^verbatim>\<open>d[k]\<close> on a plain \<^verbatim>\<open>dict\<close> without \<^verbatim>\<open>k\<close>\<close>
  | IndexError                        \<comment> \<open>index or dimension out of range\<close>
  | ZeroDivisionError
  | RuntimeError                      \<comment> \<open>raised by the tensor library\<close>
  | NameError                         \<comment> \<open>a global or local name that is not bound\<close>
  | TypeError                         \<comment> \<open>iterating a 0-d array, hashing an array\<close>

section \<open>The corpus reader\<close>

text \<open>
  \<^verbatim>\<open>str.strip()\<close> and \<^verbatim>\<open>str.split()\<close> without arguments work on the characters for
  which \<^verbatim>\<open>str.isspace\<close> holds; below 256 these are the code points 9 to 13, 28 to 32,
  133 and 160.
\<close>

definition whitespace :: "char list" where
  "whitespace = [CHR 0x09, CHR 0x0A, CHR 0x0B, CHR 0x0C, CHR 0x0D,
                 CHR 0x1C, CHR 0x1D, CHR 0x1E, CHR 0x1F, CHR 0x20, CHR 0x85, CHR 0xA0]"

definition isspace :: "char \<Rightarrow> bool" where
  "isspace c = (c \<in> set whitespace)"

definition strip :: "string \<Rightarrow> string" where
  "strip s = rev (dropWhile isspace (rev (dropWhile isspace s)))"

text \<open>
  \<^verbatim>\<open>s.split()\<close>: the maximal runs of characters that are not whitespace, in order.
  \<open>split_from cur s\<close> scans \<open>s\<close> with the field \<open>cur\<close> read so far.
\<close>

fun split_from :: "string \<Rightarrow> string \<Rightarrow> string list" where
  "split_from cur [] = (if cur = [] then [] else [cur])"
| "split_from cur (c # cs) =
     (if isspace c then (if cur = [] then split_from [] cs else cur # split_from [] cs)
      else split_from (cur @ [c]) cs)"

definition split :: "string \<Rightarrow> string list" where
  "split s = split_from [] s"

definition startswith :: "string \<Rightarrow> string \<Rightarrow> bool" where
  "startswith s p = (take (length p) s = p)"

text \<open>The tuple assignment \<^verbatim>\<open>token, tag = line.split()\<close>.\<close>

fun unpack2 :: "'a list \<Rightarrow> error + 'a \<times> 'a" where
  "unpack2 [a, b] = Inr (a, b)"
| "unpack2 xs = Inl (ValueError_unpack
     (if length xs < 2 then NotEnoughValues (length xs) else TooManyValues))"

text \<open>
  \<^verbatim>\<open>read_data\<close> keeps four lists while it reads: the sequences finished so far
  (\<^verbatim>\<open>tokens\<close> and \<^verbatim>\<open>tags\<close>, here \<open>read_tokens\<close> and \<open>read_tags\<close>) and the sequence
  being read.
\<close>

record read_state =
  read_tokens :: "string list list"
  read_tags :: "string list list"
  tweet_tokens :: "string list"
  tweet_tags :: "string list"

definition read_line :: "read_state \<Rightarrow> string \<Rightarrow> error + read_state" where
  "read_line st raw =
     (let line = strip raw in
      if line = [] then
        Inr ((if tweet_tokens st \<noteq> []
              then st\<lparr>read_tokens := read_tokens st @ [tweet_tokens st],
                   read_tags := read_tags st @ [tweet_tags st]\<rparr>
              else st)\<lparr>tweet_tokens := [], tweet_tags := []\<rparr>)
      else
        (case unpack2 (split line) of
           Inl e \<Rightarrow> Inl e
         | Inr (token, tag) \<Rightarrow>
             let token = (if startswith token ''http://'' \<or> startswith token ''https://''
                          then ''<URL>'' else token);
                 token = (if startswith token ''@'' then ''<USR>'' else token)
             in Inr (st\<lparr>tweet_tokens := tweet_tokens st @ [token],
                         tweet_tags := tweet_tags st @ [tag]\<rparr>)))"

fun read_loop :: "read_state \<Rightarrow> string list \<Rightarrow> error + read_state" where
  "read_loop st [] = Inr st"
| "read_loop st (raw # rest) =
     (case read_line st raw of Inl e \<Rightarrow> Inl e | Inr st' \<Rightarrow> read_loop st' rest)"

text \<open>
  \<open>read_data\<close> takes the lines that iterating over the opened file yields. After the
  loop it returns \<^verbatim>\<open>tokens, tags\<close>; the sequence still being read is not looked at
  again.
\<close>

definition read_data :: "string list \<Rightarrow> error + string list list \<times> string list list" where
  "read_data file_lines =
     (case read_loop \<lparr>read_tokens = [], read_tags = [], tweet_tokens = [], tweet_tags = []\<rparr> file_lines of
        Inl e \<Rightarrow> Inl e
      | Inr st \<Rightarrow> Inr (read_tokens st, read_tags st))"

section \<open>Dictionaries and the vocabulary\<close>

text \<open>
  \<^verbatim>\<open>build_dict\<close> returns a \<^verbatim>\<open>defaultdict(lambda: 0)\<close> and a plain \<^verbatim>\<open>dict\<close>. Both are
  a \<open>pydict\<close>: the entries, and the value the default factory returns, if the
  dictionary has a factory. \<^verbatim>\<open>d[k]\<close> on a key that is missing raises \<^verbatim>\<open>KeyError\<close> in a
  plain dictionary; in a \<^verbatim>\<open>defaultdict\<close> it calls the factory, stores the value under
  \<^verbatim>\<open>k\<close> and returns it. So \<open>getitem\<close> returns the dictionary after the lookup as
  well. The order in which a dictionary lists its keys is not modelled.
\<close>

record ('k, 'v) pydict =
  entries :: "'k \<rightharpoonup> 'v"
  default_factory :: "'v option"

definition dict_new :: "('k, 'v) pydict" where
  "dict_new = \<lparr>entries = Map.empty, default_factory = None\<rparr>"

definition defaultdict :: "'v \<Rightarrow> ('k, 'v) pydict" where
  "defaultdict v = \<lparr>entries = Map.empty, default_factory = Some v\<rparr>"

definition contains :: "('k, 'v) pydict \<Rightarrow> 'k \<Rightarrow> bool" where
  "contains d k = (entries d k \<noteq> None)"

definition setitem :: "('k, 'v) pydict \<Rightarrow> 'k \<Rightarrow> 'v \<Rightarrow> ('k, 'v) pydict" where
  "setitem d k v = d\<lparr>entries := (entries d)(k \<mapsto> v)\<rparr>"

definition getitem :: "('k, 'v) pydict \<Rightarrow> 'k \<Rightarrow> error + 'v \<times> ('k, 'v) pydict" where
  "getitem d k =
     (case entries d k of
        Some v \<Rightarrow> Inr (v, d)
      | None \<Rightarrow>
          (case default_factory d of
             None \<Rightarrow> Inl KeyError
           | Some v \<Rightarrow> Inr (v, setitem d k v)))"

text \<open>The value that \<^verbatim>\<open>d[k]\<close> returns, \<open>None\<close> where it raises.\<close>

definition value_of :: "('k, 'v) pydict \<Rightarrow> 'k \<Rightarrow> 'v option" where
  "value_of d k = (case entries d k of Some v \<Rightarrow> Some v | None \<Rightarrow> default_factory d)"

text \<open>The list comprehension \<^verbatim>\<open>[d[k] for k in ks]\<close>, left to right.\<close>

fun getitems :: "('k, 'v) pydict \<Rightarrow> 'k list \<Rightarrow> error + 'v list \<times> ('k, 'v) pydict" where
  "getitems d [] = Inr ([], d)"
| "getitems d (k # ks) =
     (case getitem d k of
        Inl e \<Rightarrow> Inl e
      | Inr (v, d') \<Rightarrow>
          (case getitems d' ks of
             Inl e \<Rightarrow> Inl e
           | Inr (vs, d'') \<Rightarrow> Inr (v # vs, d'')))"

subsection \<open>\<^verbatim>\<open>build_dict\<close>\<close>

text \<open>
  The state of the two loops of \<^verbatim>\<open>build_dict\<close>: \<^verbatim>\<open>tok2idx\<close>, \<^verbatim>\<open>idx2tok\<close> and \<^verbatim>\<open>index\<close>.
  The first loop stores every special token, the second one only the tokens that are not
  yet a key of \<^verbatim>\<open>tok2idx\<close> (the test \<^verbatim>\<open>tok in tok2idx\<close> does not call the factory).
\<close>

type_synonym 'a dict_state = "('a, nat) pydict \<times> (nat, 'a) pydict \<times> nat"

fun special_loop :: "'a dict_state \<Rightarrow> 'a list \<Rightarrow> 'a dict_state" where
  "special_loop st [] = st"
| "special_loop (tok2idx, idx2tok, index) (special_token # rest) =
     special_loop (setitem tok2idx special_token index,
                   setitem idx2tok index special_token,
                   index + 1) rest"

fun seq_loop :: "'a dict_state \<Rightarrow> 'a list \<Rightarrow> 'a dict_state" where
  "seq_loop st [] = st"
| "seq_loop (tok2idx, idx2tok, index) (tok # rest) =
     (if \<not> contains tok2idx tok
      then seq_loop (setitem tok2idx tok index, setitem idx2tok index tok, index + 1) rest
      else seq_loop (tok2idx, idx2tok, index) rest)"

fun corpus_loop :: "'a dict_state \<Rightarrow> 'a list list \<Rightarrow> 'a dict_state" where
  "corpus_loop st [] = st"
| "corpus_loop st (seq # rest) = corpus_loop (seq_loop st seq) rest"

definition build_dict :: "'a list list \<Rightarrow> 'a list \<Rightarrow> ('a, nat) pydict \<times> (nat, 'a) pydict" where
  "build_dict tokens_or_tags special_tokens =
     (case corpus_loop (special_loop (defaultdict 0, dict_new, 0) special_tokens) tokens_or_tags of
        (tok2idx, idx2tok, index) \<Rightarrow> (tok2idx, idx2tok))"

text \<open>
  The invariant of the loops: \<open>tok2idx\<close> maps \<open>s\<close> to \<open>k\<close> exactly when \<open>idx2tok\<close> maps
  \<open>k\<close> to \<open>s\<close>, the ids given so far are the numbers below \<open>index\<close>, and the factories
  are those of the two dictionaries \<^verbatim>\<open>build_dict\<close> creates.
\<close>

definition inverse_dicts :: "'a dict_state \<Rightarrow> bool" where
  "inverse_dicts st =
     (case st of (tok2idx, idx2tok, index) \<Rightarrow>
        (\<forall>s k. (entries tok2idx s = Some k) = (entries idx2tok k = Some s))
        \<and> dom (entries idx2tok) = {..<index}
        \<and> default_factory tok2idx = Some 0 \<and> default_factory idx2tok = None)"

definition keys_of :: "'a dict_state \<Rightarrow> 'a set" where
  "keys_of st = (case st of (tok2idx, idx2tok, index) \<Rightarrow> dom (entries tok2idx))"

subsection \<open>The global dictionaries and the helpers that read them\<close>

text \<open>
  The helpers \<^verbatim>\<open>words2idxs\<close>, \<^verbatim>\<open>tags2idxs\<close>, \<^verbatim>\<open>idxs2words\<close> and \<^verbatim>\<open>idxs2tags\<close> read the
  notebook's global dictionaries. The globals are a record that every function takes
  and, where a lookup can store a key, returns.
\<close>

record vocab =
  token2idx :: "(string, nat) pydict"
  idx2token :: "(nat, string) pydict"
  tag2idx :: "(string, nat) pydict"
  idx2tag :: "(nat, string) pydict"

definition special_tokens :: "string list" where
  "special_tokens = [''<UNK>'', ''<PAD>'']"

definition special_tags :: "string list" where
  "special_tags = [''O'']"

text \<open>
  The cell that creates the dictionaries: tokens from the training and validation data,
  tags from the training data.
\<close>

definition create_dictionaries ::
  "string list list \<Rightarrow> string list list \<Rightarrow> string list list \<Rightarrow> vocab" where
  "create_dictionaries train_tokens validation_tokens train_tags =
     (case build_dict (train_tokens @ validation_tokens) special_tokens of
        (t2i, i2t) \<Rightarrow>
          (case build_dict train_tags special_tags of
             (g2i, i2g) \<Rightarrow>
               \<lparr>token2idx = t2i, idx2token = i2t, tag2idx = g2i, idx2tag = i2g\<rparr>))"

definition words2idxs ::
  "'g vocab_scheme \<Rightarrow> string list \<Rightarrow> error + nat list \<times> 'g vocab_scheme" where
  "words2idxs g tokens_list =
     (case getitems (token2idx g) tokens_list of
        Inl e \<Rightarrow> Inl e
      | Inr (ids, d) \<Rightarrow> Inr (ids, g\<lparr>token2idx := d\<rparr>))"

definition tags2idxs ::
  "'g vocab_scheme \<Rightarrow> string list \<Rightarrow> error + nat list \<times> 'g vocab_scheme" where
  "tags2idxs g tags_list =
     (case getitems (tag2idx g) tags_list of
        Inl e \<Rightarrow> Inl e
      | Inr (ids, d) \<Rightarrow> Inr (ids, g\<lparr>tag2idx := d\<rparr>))"

definition idxs2words ::
  "'g vocab_scheme \<Rightarrow> nat list \<Rightarrow> error + string list \<times> 'g vocab_scheme" where
  "idxs2words g idxs =
     (case getitems (idx2token g) idxs of
        Inl e \<Rightarrow> Inl e
      | Inr (ws, d) \<Rightarrow> Inr (ws, g\<lparr>idx2token := d\<rparr>))"

definition idxs2tags ::
  "'g vocab_scheme \<Rightarrow> nat list \<Rightarrow> error + string list \<times> 'g vocab_scheme" where
  "idxs2tags g idxs =
     (case getitems (idx2tag g) idxs of
        Inl e \<Rightarrow> Inl e
      | Inr (ts, d) \<Rightarrow> Inr (ts, g\<lparr>idx2tag := d\<rparr>))"

section \<open>The batch generator\<close>

text \<open>
  A batch is what \<^verbatim>\<open>batches_generator\<close> yields: the matrix \<^verbatim>\<open>x\<close> of token ids, the
  matrix \<^verbatim>\<open>y\<close> of tag ids, both a list of rows, and the vector \<^verbatim>\<open>lengths\<close>. The fields
  are named as the loops that read the batches name them. Ids are far below the bound
  of the arrays' element type \<^verbatim>\<open>int32\<close>, which is not modelled.
\<close>

record batch =
  x_batch :: "nat list list"
  y_batch :: "nat list list"
  lengths :: "nat list"

text \<open>
  The slice \<^verbatim>\<open>xs[a:b]\<close> of Python and numpy: a negative bound counts from the end, and
  both bounds are clipped to the list.
\<close>

definition slice_bound :: "nat \<Rightarrow> int \<Rightarrow> nat" where
  "slice_bound len i = (if i < 0 then nat (max 0 (i + int len)) else min (nat i) len)"

definition py_slice :: "'a list \<Rightarrow> int \<Rightarrow> int \<Rightarrow> 'a list" where
  "py_slice xs a b =
     take (slice_bound (length xs) b - slice_bound (length xs) a)
          (drop (slice_bound (length xs) a) xs)"

text \<open>
  The numpy assignment \<^verbatim>\<open>row[:stop] = vals\<close> of a list to a slice of a row: the slice
  has \<open>min stop (length row)\<close> places; the list must have as many values, or one value,
  which is then written to every place. Anything else cannot be broadcast.
\<close>

definition slice_assign :: "nat list \<Rightarrow> nat \<Rightarrow> nat list \<Rightarrow> error + nat list" where
  "slice_assign row stop vals =
     (let k = min stop (length row) in
      if length vals = k then Inr (vals @ drop k row)
      else if length vals = 1 then Inr (replicate k (hd vals) @ drop k row)
      else Inl ValueError_broadcast)"

text \<open>
  The loop \<^verbatim>\<open>for idx in order[batch_start: batch_end]\<close>, with \<^verbatim>\<open>x_list\<close>, \<^verbatim>\<open>y_list\<close> and
  \<^verbatim>\<open>max_len_token\<close> as its state. The maximum is taken over the lengths of the tag
  lists.
\<close>

fun collect_rows ::
  "'g vocab_scheme \<Rightarrow> string list list \<Rightarrow> string list list \<Rightarrow> nat list
   \<Rightarrow> nat list list \<times> nat list list \<times> nat
   \<Rightarrow> error + (nat list list \<times> nat list list \<times> nat) \<times> 'g vocab_scheme" where
  "collect_rows g tokens tags [] acc = Inr (acc, g)"
| "collect_rows g tokens tags (idx # rest) (x_list, y_list, max_len_token) =
     (if length tokens \<le> idx then Inl IndexError
      else case words2idxs g (tokens ! idx) of
        Inl e \<Rightarrow> Inl e
      | Inr (xs, g1) \<Rightarrow>
          (if length tags \<le> idx then Inl IndexError
           else case tags2idxs g1 (tags ! idx) of
             Inl e \<Rightarrow> Inl e
           | Inr (ys, g2) \<Rightarrow>
               collect_rows g2 tokens tags rest
                 (x_list @ [xs], y_list @ [ys], max max_len_token (length (tags ! idx)))))"

text \<open>The loop \<^verbatim>\<open>for n in range(current_batch_size)\<close> that fills the rows.\<close>

fun fill_rows :: "nat list list \<Rightarrow> nat list list \<Rightarrow> nat list \<Rightarrow> batch \<Rightarrow> error + batch" where
  "fill_rows x_list y_list [] b = Inr b"
| "fill_rows x_list y_list (n # ns) b =
     (if length x_list \<le> n then Inl IndexError
      else
        let utt_len = length (x_list ! n) in
        case slice_assign (x_batch b ! n) utt_len (x_list ! n) of
          Inl e \<Rightarrow> Inl e
        | Inr x_row \<Rightarrow>
            (case slice_assign (y_batch b ! n) utt_len (y_list ! n) of
               Inl e \<Rightarrow> Inl e
             | Inr y_row \<Rightarrow>
                 fill_rows x_list y_list ns
                   \<lparr>x_batch = (x_batch b)[n := x_row],
                    y_batch = (y_batch b)[n := y_row],
                    lengths = (lengths b)[n := utt_len]\<rparr>))"

text \<open>
  One turn of the loop \<^verbatim>\<open>for k in range(n_batches)\<close>. The loop runs only when
  \<^verbatim>\<open>batch_size\<close> is positive (lemma \<open>n_batches_positive\<close> below), so
  \<^verbatim>\<open>current_batch_size\<close> is not negative. The two lookups \<^verbatim>\<open>token2idx['<PAD>']\<close> and
  \<^verbatim>\<open>tag2idx['O']\<close> go through the global dictionaries like every other lookup.
\<close>

definition make_batch ::
  "'g vocab_scheme \<Rightarrow> int \<Rightarrow> string list list \<Rightarrow> string list list \<Rightarrow> nat list \<Rightarrow> nat
   \<Rightarrow> error + batch \<times> 'g vocab_scheme" where
  "make_batch g batch_size tokens tags order k =
     (let n_samples = int (length tokens);
          batch_start = int k * batch_size;
          batch_end = min ((int k + 1) * batch_size) n_samples;
          current_batch_size = nat (batch_end - batch_start)
      in case collect_rows g tokens tags (py_slice order batch_start batch_end) ([], [], 0) of
           Inl e \<Rightarrow> Inl e
         | Inr ((x_list, y_list, max_len_token), g1) \<Rightarrow>
             (case getitem (token2idx g1) ''<PAD>'' of
                Inl e \<Rightarrow> Inl e
              | Inr (pad, d1) \<Rightarrow>
                  (case getitem (tag2idx g1) ''O'' of
                     Inl e \<Rightarrow> Inl e
                   | Inr (outside, d2) \<Rightarrow>
                       (case fill_rows x_list y_list [0..<current_batch_size]
                               \<lparr>x_batch = replicate current_batch_size (replicate max_len_token pad),
                                y_batch = replicate current_batch_size (replicate max_len_token outside),
                                lengths = replicate current_batch_size 0\<rparr> of
                          Inl e \<Rightarrow> Inl e
                        | Inr b \<Rightarrow> Inr (b, g1\<lparr>token2idx := d1, tag2idx := d2\<rparr>)))))"

fun batch_loop ::
  "'g vocab_scheme \<Rightarrow> int \<Rightarrow> string list list \<Rightarrow> string list list \<Rightarrow> nat list \<Rightarrow> nat list
   \<Rightarrow> error + batch list \<times> 'g vocab_scheme" where
  "batch_loop g batch_size tokens tags order [] = Inr ([], g)"
| "batch_loop g batch_size tokens tags order (k # ks) =
     (case make_batch g batch_size tokens tags order k of
        Inl e \<Rightarrow> Inl e
      | Inr (b, g1) \<Rightarrow>
          (case batch_loop g1 batch_size tokens tags order ks of
             Inl e \<Rightarrow> Inl e
           | Inr (bs, g2) \<Rightarrow> Inr (b # bs, g2)))"

definition n_batches_of :: "int \<Rightarrow> nat \<Rightarrow> bool \<Rightarrow> int" where
  "n_batches_of batch_size n_samples allow_smaller_last_batch =
     (let n_batches = int n_samples div batch_size in
      if allow_smaller_last_batch \<and> int n_samples mod batch_size \<noteq> 0
      then n_batches + 1 else n_batches)"

text \<open>
  \<^verbatim>\<open>batches_generator\<close> is a generator; the model returns the list of the batches it
  yields, in order, and the globals after the last one. \<open>permutation\<close> is the array
  that \<^verbatim>\<open>np.random.permutation(n_samples)\<close> returns in this call, read when \<open>shuffle\<close>
  holds. Division and remainder of Python integers are those of \<^typ>\<open>int\<close>; a
  \<^verbatim>\<open>batch_size\<close> of 0 raises \<^verbatim>\<open>ZeroDivisionError\<close>.
\<close>

definition batches_generator ::
  "'g vocab_scheme \<Rightarrow> int \<Rightarrow> string list list \<Rightarrow> string list list \<Rightarrow> bool \<Rightarrow> bool \<Rightarrow> nat list
   \<Rightarrow> error + batch list \<times> 'g vocab_scheme" where
  "batches_generator g batch_size tokens tags shuffle allow_smaller_last_batch permutation =
     (let n_samples = length tokens;
          order = (if shuffle then permutation else [0..<n_samples])
      in if batch_size = 0 then Inl ZeroDivisionError
         else batch_loop g batch_size tokens tags order
                [0..<nat (n_batches_of batch_size n_samples allow_smaller_last_batch)])"

section \<open>Tensors\<close>

text \<open>
  The tensor library is not part of the notebook. What the notebook's own code depends
  on is modelled here from the library's documented behaviour: a tensor has a shape, an
  element type and a value at every index within the shape. Only the operations that
  the notebook calls are defined. Moving a tensor to a device or to the CPU changes
  neither shape nor values and is left out.
\<close>

datatype dtype = TInt | TFloat | TBool

record 'a tensor =
  shape :: "nat list"
  dtype :: dtype
  elem :: "nat list \<Rightarrow> 'a"

text \<open>
  \<^verbatim>\<open>torch.tensor(xs)\<close> for a list of Python integers: a one-dimensional integer tensor;
  for the empty list the library infers the element type \<^verbatim>\<open>float32\<close>.
\<close>

definition tensor_of_list :: "nat list \<Rightarrow> nat tensor" where
  "tensor_of_list xs =
     \<lparr>shape = [length xs], dtype = (if xs = [] then TFloat else TInt),
      elem = (\<lambda>idx. xs ! hd idx)\<rparr>"

text \<open>
  \<^verbatim>\<open>torch.tensor(a).long()\<close> for a matrix of a batch, given by its rows. A batch has at
  least one row, and every row has the width of the matrix.
\<close>

definition tensor_of_rows :: "nat list list \<Rightarrow> nat tensor" where
  "tensor_of_rows rows =
     \<lparr>shape = [length rows, (case rows of [] \<Rightarrow> 0 | r # _ \<Rightarrow> length r)], dtype = TInt,
      elem = (\<lambda>idx. rows ! (idx ! 0) ! (idx ! 1))\<rparr>"

definition unsqueeze0 :: "'a tensor \<Rightarrow> 'a tensor" where
  "unsqueeze0 t = \<lparr>shape = 1 # shape t, dtype = dtype t, elem = (\<lambda>idx. elem t (tl idx))\<rparr>"

text \<open>
  \<^verbatim>\<open>t.squeeze()\<close> removes every dimension of size 1. \<open>unsqueezed ds idx\<close> is the index
  into a tensor of shape \<open>ds\<close> that belongs to the index \<open>idx\<close> into the squeezed one.
\<close>

fun unsqueezed :: "nat list \<Rightarrow> nat list \<Rightarrow> nat list" where
  "unsqueezed [] idx = []"
| "unsqueezed (d # ds) idx =
     (if d = 1 then 0 # unsqueezed ds idx
      else (case idx of [] \<Rightarrow> [] | i # rest \<Rightarrow> i # unsqueezed ds rest))"

definition squeeze :: "'a tensor \<Rightarrow> 'a tensor" where
  "squeeze t =
     \<lparr>shape = filter (\<lambda>d. d \<noteq> 1) (shape t), dtype = dtype t,
      elem = (\<lambda>idx. elem t (unsqueezed (shape t) idx))\<rparr>"

text \<open>\<^verbatim>\<open>t.permute(0, 2, 1)\<close>, defined for a tensor of three dimensions.\<close>

definition permute021 :: "'a tensor \<Rightarrow> error + 'a tensor" where
  "permute021 t =
     (case shape t of
        [a, b, c] \<Rightarrow>
          Inr \<lparr>shape = [a, c, b], dtype = dtype t,
               elem = (\<lambda>idx. elem t [idx ! 0, idx ! 2, idx ! 1])\<rparr>
      | _ \<Rightarrow> Inl RuntimeError)"

text \<open>
  \<^verbatim>\<open>t.max(dim)[1]\<close>: the index of the maximal value along the dimension \<open>axis\<close>, the
  first one where several values are maximal. A dimension that the tensor does not
  have, and a dimension of size 0, raise \<^verbatim>\<open>IndexError\<close>. Scores are values of a linear order; the floating-point
  value NaN, which a tensor of scores could hold, is not modelled.
\<close>

definition argmax :: "(nat \<Rightarrow> 'a::linorder) \<Rightarrow> nat \<Rightarrow> nat" where
  "argmax f n = fold (\<lambda>j best. if f best < f j then j else best) [0..<n] 0"

definition max_indices :: "'a::linorder tensor \<Rightarrow> nat \<Rightarrow> error + nat tensor" where
  "max_indices t axis =
     (if length (shape t) \<le> axis then Inl IndexError
      else if shape t ! axis = 0 then Inl IndexError
      else Inr \<lparr>shape = take axis (shape t) @ drop (Suc axis) (shape t), dtype = TInt,
                elem = (\<lambda>idx. argmax (\<lambda>j. elem t (take axis idx @ j # drop axis idx))
                                (shape t ! axis))\<rparr>)"

text \<open>
  \<^verbatim>\<open>t.eq(u)\<close> compares elementwise after broadcasting: the shapes are aligned at their
  last dimension, and two sizes fit when they are equal or one of them is 1. Shapes that
  do not fit raise \<^verbatim>\<open>RuntimeError\<close>.
\<close>

fun broadcast_rev :: "nat list \<Rightarrow> nat list \<Rightarrow> nat list option" where
  "broadcast_rev [] bs = Some bs"
| "broadcast_rev (a # as) [] = Some (a # as)"
| "broadcast_rev (a # as) (b # bs) =
     (if a = b \<or> b = 1 then map_option ((#) a) (broadcast_rev as bs)
      else if a = 1 then map_option ((#) b) (broadcast_rev as bs)
      else None)"

definition broadcast_shapes :: "nat list \<Rightarrow> nat list \<Rightarrow> nat list option" where
  "broadcast_shapes s1 s2 = map_option rev (broadcast_rev (rev s1) (rev s2))"

definition broadcast_index :: "nat list \<Rightarrow> nat list \<Rightarrow> nat list" where
  "broadcast_index s idx =
     map2 (\<lambda>d i. if d = 1 then 0 else i) s (drop (length idx - length s) idx)"

definition eq_tensor :: "'a tensor \<Rightarrow> 'a tensor \<Rightarrow> error + bool tensor" where
  "eq_tensor t u =
     (case broadcast_shapes (shape t) (shape u) of
        None \<Rightarrow> Inl RuntimeError
      | Some s \<Rightarrow>
          Inr \<lparr>shape = s, dtype = TBool,
               elem = (\<lambda>idx. elem t (broadcast_index (shape t) idx)
                            = elem u (broadcast_index (shape u) idx))\<rparr>)"

text \<open>\<^verbatim>\<open>t.sum()\<close> of a tensor of truth values: the number of indices that hold True.\<close>

fun indices :: "nat list \<Rightarrow> nat list list" where
  "indices [] = [[]]"
| "indices (d # ds) = concat (map (\<lambda>i. map ((#) i) (indices ds)) [0..<d])"

definition count_true :: "bool tensor \<Rightarrow> nat" where
  "count_true t = length (filter (elem t) (indices (shape t)))"

text \<open>
  \<^verbatim>\<open>list(t.numpy())\<close> followed by a use of the elements as dictionary keys: the list of
  the elements of a one-dimensional tensor. A tensor without dimension cannot be
  iterated, and the elements of a tensor of more dimensions are arrays, which cannot be
  keys: both raise \<^verbatim>\<open>TypeError\<close>.
\<close>

definition to_list :: "'a tensor \<Rightarrow> error + 'a list" where
  "to_list t = (case shape t of [n] \<Rightarrow> Inr (map (\<lambda>i. elem t [i]) [0..<n]) | _ \<Rightarrow> Inl TypeError)"

section \<open>The tagger\<close>

text \<open>
  An object of the class \<^verbatim>\<open>NERTagger\<close>. Its layers (embedding, LSTM, linear layer,
  log-softmax over the last dimension) are the library's; with the parameters the
  object holds at the moment they give, for a row of token ids, a position of the row
  and a tag, a score: the field \<open>tag_scores\<close>. \<^verbatim>\<open>forward\<close> maps a matrix of ids of shape
  \<open>[B, L]\<close> to the tensor of shape \<open>[B, L, n_tags]\<close> of these scores. The embedding
  raises \<^verbatim>\<open>RuntimeError\<close> on indices that are not integers and \<^verbatim>\<open>IndexError\<close> on an id
  that is not below \<open>vocab_size\<close>. Both callers in the notebook pass a matrix; another
  shape is rejected. The class has no layer that behaves differently while training, so
  \<open>training\<close> is not read by \<open>forward\<close>.
\<close>

record 's module =
  vocab_size :: nat
  n_tags :: nat
  tag_scores :: "nat list \<Rightarrow> nat \<Rightarrow> nat \<Rightarrow> 's"
  training :: bool

definition row_of :: "nat tensor \<Rightarrow> nat \<Rightarrow> nat list" where
  "row_of X b = map (\<lambda>l. elem X [b, l]) [0..<shape X ! 1]"

definition forward :: "'s module \<Rightarrow> nat tensor \<Rightarrow> error + 's tensor" where
  "forward m X =
     (if dtype X \<noteq> TInt then Inl RuntimeError
      else if list_ex (\<lambda>idx. vocab_size m \<le> elem X idx) (indices (shape X)) then Inl IndexError
      else if length (shape X) \<noteq> 2 then Inl RuntimeError
      else Inr \<lparr>shape = shape X @ [n_tags m], dtype = TFloat,
                elem = (\<lambda>idx. tag_scores m (row_of X (idx ! 0)) (idx ! 1) (idx ! 2))\<rparr>)"

section \<open>The state of the notebook\<close>

text \<open>
  Besides the four dictionaries, the functions below read three more global names:
  \<^verbatim>\<open>ner_tagger\<close>, \<^verbatim>\<open>batch_size\<close> and \<^verbatim>\<open>true_tags\<close> (which is bound only after the last
  cell has run). A tagger is an object: the state holds the objects by address,
  \<^verbatim>\<open>ner_tagger\<close> and an argument \<^verbatim>\<open>model\<close> are addresses, and two names may hold the same
  address.
\<close>

type_synonym addr = nat

record 's state = vocab +
  ner_tagger :: addr
  batch_size :: int
  true_tags :: "string list option"
  heap :: "addr \<Rightarrow> 's module"

section \<open>The predictor\<close>

text \<open>
  \<^verbatim>\<open>predict_sentence\<close> returns \<^verbatim>\<open>res\<close>. With \<^verbatim>\<open>tags\<close> and \<^verbatim>\<open>verbosity\<close> it prints
  \<^verbatim>\<open>Correct tags c/n\<close>; \<open>printed\<close> holds the two numbers of that line. \<^verbatim>\<open>if tags:\<close> holds
  for a list that is not empty, \<^verbatim>\<open>if verbosity:\<close> for a number that is not 0.
\<close>

record prediction =
  res :: "string list"
  printed :: "(nat \<times> nat) option"

definition predict_sentence ::
  "('s::linorder) state \<Rightarrow> string list \<Rightarrow> string list option \<Rightarrow> int
   \<Rightarrow> error + prediction \<times> 's state" where
  "predict_sentence g sentence tags verbosity =
     (case words2idxs g sentence of
        Inl e \<Rightarrow> Inl e
      | Inr (ids, g1) \<Rightarrow>
     (case forward (heap g1 (ner_tagger g1)) (unsqueeze0 (tensor_of_list ids)) of
        Inl e \<Rightarrow> Inl e
      | Inr scores \<Rightarrow>
     (case max_indices (squeeze scores) 1 of
        Inl e \<Rightarrow> Inl e
      | Inr y_pred \<Rightarrow>
     (case to_list y_pred of
        Inl e \<Rightarrow> Inl e
      | Inr idxs \<Rightarrow>
     (case idxs2tags g1 idxs of
        Inl e \<Rightarrow> Inl e
      | Inr (res_tags, g2) \<Rightarrow>
          if tags \<noteq> None \<and> tags \<noteq> Some [] then
            (case true_tags g2 of
               None \<Rightarrow> Inl NameError
             | Some tt \<Rightarrow>
            (case tags2idxs g2 tt of
               Inl e \<Rightarrow> Inl e
             | Inr (true_ids, g3) \<Rightarrow>
            (case eq_tensor y_pred (tensor_of_list true_ids) of
               Inl e \<Rightarrow> Inl e
             | Inr same \<Rightarrow>
                 Inr (\<lparr>res = res_tags,
                       printed = (if verbosity \<noteq> 0
                                  then Some (count_true same, length res_tags)
                                  else None)\<rparr>, g3))))
          else Inr (\<lparr>res = res_tags, printed = None\<rparr>, g2))))))"

section \<open>Evaluation and training\<close>

text \<open>
  The loss, the running totals and the accuracy are numbers of the tensor library
  (zero-dimensional tensors, and Python floats taken from them). Their arithmetic is a
  parameter of the model: \<open>n_count c\<close> is the tensor that \<^verbatim>\<open>sum()\<close> returns for a count
  \<open>c\<close>, \<open>n_div x k\<close> is \<^verbatim>\<open>x / k\<close> for a Python integer \<open>k\<close>, \<open>n_times100 x\<close> is
  \<^verbatim>\<open>100. * x\<close>, \<open>n_add\<close> is \<^verbatim>\<open>+\<close>, and \<open>n_zero\<close> is the number the totals start from. So
  nothing is assumed about rounding, or about what the library's division gives for
  integer tensors or for the divisor 0.
\<close>

record 'n arith =
  n_zero :: 'n
  n_count :: "nat \<Rightarrow> 'n"
  n_add :: "'n \<Rightarrow> 'n \<Rightarrow> 'n"
  n_div :: "'n \<Rightarrow> nat \<Rightarrow> 'n"
  n_times100 :: "'n \<Rightarrow> 'n"

text \<open>
  The telemetry writer: the list of the scalars added so far, each with its tag and its
  step. Printing is not modelled.
\<close>

type_synonym 'n writer = "(string \<times> 'n \<times> int option) list"

text \<open>
  The loss function is an argument of both functions, a callable that may raise. The
  loops read the batches of \<open>batches_generator\<close>, called with its default arguments
  (\<open>shuffle\<close> and \<open>allow_smaller_last_batch\<close> hold); the model lets the generator yield
  all batches before the first one is used, which is the same when nothing raises.
\<close>

type_synonym ('s, 'n) criterion = "'s tensor \<Rightarrow> nat tensor \<Rightarrow> error + 'n"

subsection \<open>\<^verbatim>\<open>test_model\<close>\<close>

text \<open>One turn of the loop of \<^verbatim>\<open>test_model\<close>, on \<^verbatim>\<open>loss\<close>, \<^verbatim>\<open>correct\<close>, \<^verbatim>\<open>n\<close>, \<^verbatim>\<open>n_samples\<close>.\<close>

definition test_batch ::
  "'n arith \<Rightarrow> ('s::linorder) module \<Rightarrow> ('s, 'n) criterion \<Rightarrow> 'n \<times> 'n \<times> nat \<times> nat \<Rightarrow> batch
   \<Rightarrow> error + 'n \<times> 'n \<times> nat \<times> nat" where
  "test_batch A m criterion acc b =
     (case acc of (loss, correct, n, n_samples) \<Rightarrow>
      let x = tensor_of_rows (x_batch b); y = tensor_of_rows (y_batch b) in
     (case forward m x of
        Inl e \<Rightarrow> Inl e
      | Inr scores \<Rightarrow>
     (case permute021 scores of
        Inl e \<Rightarrow> Inl e
      | Inr outputs \<Rightarrow>
     (case criterion outputs y of
        Inl e \<Rightarrow> Inl e
      | Inr l \<Rightarrow>
     (case max_indices outputs 1 of
        Inl e \<Rightarrow> Inl e
      | Inr y_pred \<Rightarrow>
     (case eq_tensor y_pred y of
        Inl e \<Rightarrow> Inl e
      | Inr same \<Rightarrow>
          Inr (n_add A loss l,
               n_add A correct (n_div A (n_count A (count_true same)) (shape y ! 1)),
               n + 1,
               n_samples + shape x ! 0)))))))"

fun test_loop ::
  "'n arith \<Rightarrow> ('s::linorder) module \<Rightarrow> ('s, 'n) criterion \<Rightarrow> 'n \<times> 'n \<times> nat \<times> nat \<Rightarrow> batch list
   \<Rightarrow> error + 'n \<times> 'n \<times> nat \<times> nat" where
  "test_loop A m criterion acc [] = Inr acc"
| "test_loop A m criterion acc (b # bs) =
     (case test_batch A m criterion acc b of
        Inl e \<Rightarrow> Inl e
      | Inr acc' \<Rightarrow> test_loop A m criterion acc' bs)"

text \<open>
  \<^verbatim>\<open>test_model\<close> has no parameter \<^verbatim>\<open>batch_size\<close>: it reads the global one. With no batch,
  \<^verbatim>\<open>loss /= n\<close> divides the integer 0 by the integer 0. The function returns
  \<^verbatim>\<open>accuracy\<close>; the model returns the state and the writer as well.
\<close>

definition test_model ::
  "'n arith \<Rightarrow> ('s::linorder) state \<Rightarrow> addr \<Rightarrow> string list list \<Rightarrow> string list list
   \<Rightarrow> ('s, 'n) criterion \<Rightarrow> 'n writer option \<Rightarrow> int option \<Rightarrow> nat list
   \<Rightarrow> error + 'n \<times> 's state \<times> 'n writer option" where
  "test_model A g model tokens tags criterion writer epoch permutation =
     (let g0 = g\<lparr>heap := (heap g)(model := (heap g model)\<lparr>training := False\<rparr>)\<rparr> in
      case batches_generator g0 (batch_size g0) tokens tags True True permutation of
        Inl e \<Rightarrow> Inl e
      | Inr (batches, g1) \<Rightarrow>
     (case test_loop A (heap g1 model) criterion (n_zero A, n_zero A, 0, 0) batches of
        Inl e \<Rightarrow> Inl e
      | Inr (loss, correct, n, n_samples) \<Rightarrow>
          if n = 0 then Inl ZeroDivisionError
          else
            let loss = n_div A loss n;
                accuracy = n_div A (n_times100 A correct) n_samples
            in Inr (accuracy, g1,
                    map_option (\<lambda>w. w @ [(''Test/Loss'', loss, epoch),
                                           (''Test/Accuracy'', accuracy, epoch)]) writer)))"

text \<open>
  The quantities that the accuracy is made of. \<open>predicted m row l\<close> is the tag id with
  the highest score at position \<open>l\<close> of a row; \<open>batch_correct m b\<close> counts the positions
  of the matrices of a batch, padding included, where the predicted tag id is the tag
  id of \<open>y\<close>; \<open>batch_width b\<close> is the number of columns.
\<close>

definition predicted :: "('s::linorder) module \<Rightarrow> nat list \<Rightarrow> nat \<Rightarrow> nat" where
  "predicted m row l = argmax (tag_scores m row l) (n_tags m)"

definition batch_correct :: "('s::linorder) module \<Rightarrow> batch \<Rightarrow> nat" where
  "batch_correct m b =
     sum_list (map (\<lambda>r. length (filter (\<lambda>l. predicted m (x_batch b ! r) l = y_batch b ! r ! l)
                                      [0..<length (y_batch b ! r)]))
                   [0..<length (y_batch b)])"

definition batch_width :: "batch \<Rightarrow> nat" where
  "batch_width b = (case y_batch b of [] \<Rightarrow> 0 | r # _ \<Rightarrow> length r)"

subsection \<open>\<^verbatim>\<open>train_one_epoch\<close>\<close>

text \<open>
  The three calls \<^verbatim>\<open>optimizer.zero_grad()\<close>, \<^verbatim>\<open>loss.backward()\<close> and \<^verbatim>\<open>optimizer.step()\<close>
  change the parameters that objects hold. What they do is the library's and depends on
  the optimizer and the loss function passed; the model takes it as one function: from
  the objects, the address of the module whose forward pass produced the loss, and the
  batch, to the objects after the step.
\<close>

type_synonym 's optimizer =
  "(addr \<Rightarrow> 's module) \<Rightarrow> addr \<Rightarrow> nat tensor \<Rightarrow> nat tensor \<Rightarrow> (addr \<Rightarrow> 's module)"

text \<open>
  The state of the loop of \<^verbatim>\<open>train_one_epoch\<close>: the objects, \<^verbatim>\<open>correct\<close>,
  \<^verbatim>\<open>running_loss\<close>, the \<^verbatim>\<open>loss\<close> of the last batch if there was one, and the writer.
  \<open>forward_calls\<close> is not a variable of the code: it records, for every forward pass of
  the loop, the address of the module that was called.
\<close>

record ('s, 'n) train_state =
  objects :: "addr \<Rightarrow> 's module"
  correct :: 'n
  running_loss :: 'n
  last_loss :: "'n option"
  scalars :: "'n writer"
  forward_calls :: "addr list"

definition train_batch ::
  "'n arith \<Rightarrow> addr \<Rightarrow> ('s, 'n) criterion \<Rightarrow> ('s::linorder) optimizer \<Rightarrow> int \<Rightarrow> int \<Rightarrow> int
   \<Rightarrow> ('s, 'n) train_state \<Rightarrow> nat \<times> batch \<Rightarrow> error + ('s, 'n) train_state" where
  "train_batch A tagger criterion optimizer n_samples batch_size' epoch st item =
     (case item of (batch_id, b) \<Rightarrow>
      let x = tensor_of_rows (x_batch b); y = tensor_of_rows (y_batch b) in
     (case forward (objects st tagger) x of
        Inl e \<Rightarrow> Inl e
      | Inr scores \<Rightarrow>
     (case permute021 scores of
        Inl e \<Rightarrow> Inl e
      | Inr outputs \<Rightarrow>
     (case criterion outputs y of
        Inl e \<Rightarrow> Inl e
      | Inr loss \<Rightarrow>
     (case max_indices outputs 1 of
        Inl e \<Rightarrow> Inl e
      | Inr y_pred \<Rightarrow>
     (case eq_tensor y_pred y of
        Inl e \<Rightarrow> Inl e
      | Inr same \<Rightarrow>
          let running = n_add A (running_loss st) loss
          in Inr \<lparr>objects = optimizer (objects st) tagger x y,
                  correct = n_add A (correct st)
                              (n_div A (n_count A (count_true same)) (shape y ! 1)),
                  running_loss = (if batch_id mod 100 = 99 then n_zero A else running),
                  last_loss = Some loss,
                  scalars = (if batch_id mod 100 = 99
                             then scalars st @
                                  [(''training loss'', n_div A running 100,
                                    Some (epoch * (n_samples div batch_size') + int batch_id))]
                             else scalars st),
                  forward_calls = forward_calls st @ [tagger]\<rparr>))))))"

fun train_loop ::
  "'n arith \<Rightarrow> addr \<Rightarrow> ('s, 'n) criterion \<Rightarrow> ('s::linorder) optimizer \<Rightarrow> int \<Rightarrow> int \<Rightarrow> int
   \<Rightarrow> ('s, 'n) train_state \<Rightarrow> (nat \<times> batch) list \<Rightarrow> error + ('s, 'n) train_state" where
  "train_loop A tagger criterion optimizer n_samples batch_size' epoch st [] = Inr st"
| "train_loop A tagger criterion optimizer n_samples batch_size' epoch st (item # items) =
     (case train_batch A tagger criterion optimizer n_samples batch_size' epoch st item of
        Inl e \<Rightarrow> Inl e
      | Inr st' \<Rightarrow> train_loop A tagger criterion optimizer n_samples batch_size' epoch st' items)"

text \<open>
  \<^verbatim>\<open>train_one_epoch\<close> calls \<^verbatim>\<open>model.train()\<close> on its argument and then, in the loop, the
  global \<^verbatim>\<open>ner_tagger\<close>. After the loop it reads \<^verbatim>\<open>loss\<close>, which is not bound when there
  was no batch. It returns nothing; the model returns the state, the writer and the
  record of the forward passes.
\<close>

definition train_one_epoch ::
  "'n arith \<Rightarrow> ('s::linorder) state \<Rightarrow> addr \<Rightarrow> string list list \<Rightarrow> string list list \<Rightarrow> int
   \<Rightarrow> ('s, 'n) criterion \<Rightarrow> 's optimizer \<Rightarrow> 'n writer \<Rightarrow> int \<Rightarrow> nat list
   \<Rightarrow> error + 's state \<times> 'n writer \<times> addr list" where
  "train_one_epoch A g model train_tokens train_tags batch_size' criterion optimizer writer epoch
       permutation =
     (let n_samples = int (length train_tokens);
          g0 = g\<lparr>heap := (heap g)(model := (heap g model)\<lparr>training := True\<rparr>)\<rparr>
      in case batches_generator g0 batch_size' train_tokens train_tags True True permutation of
           Inl e \<Rightarrow> Inl e
         | Inr (batches, g1) \<Rightarrow>
        (case train_loop A (ner_tagger g1) criterion optimizer n_samples batch_size' epoch
                \<lparr>objects = heap g1, correct = n_zero A, running_loss = n_zero A,
                 last_loss = None, scalars = writer, forward_calls = []\<rparr>
                (zip [0..<length batches] batches) of
           Inl e \<Rightarrow> Inl e
         | Inr st \<Rightarrow>
             (case last_loss st of
                None \<Rightarrow> Inl NameError
              | Some loss \<Rightarrow>
                  Inr (g1\<lparr>heap := objects st\<rparr>,
                       scalars st @ [(''Train/Loss'', loss, Some epoch)],
                       forward_calls st))))"

section \<open>Examples\<close>

text \<open>
  A small state for the concrete cases below: the dictionaries of a corpus of one
  sentence, and at address 0 a tagger that gives tag 0, which is \<^verbatim>\<open>O\<close>, the highest score
  at every position.
\<close>

definition example_tagger :: "int module" where
  "example_tagger =
     \<lparr>vocab_size = 4, n_tags = 2, tag_scores = (\<lambda>row l t. if t = 0 then 1 else 0),
      training = False\<rparr>"

definition example_state :: "string list option \<Rightarrow> int state" where
  "example_state tt =
     vocab.extend (create_dictionaries [[''hello'', ''world'']] [] [[''O'', ''B'']])
       \<lparr>ner_tagger = 0, batch_size = 32, true_tags = tt, heap = (\<lambda>a. example_tagger)\<rparr>"

text \<open>Exact arithmetic on rational numbers, as one instance of the arithmetic.\<close>

definition exact :: "rat arith" where
  "exact = \<lparr>n_zero = 0, n_count = of_nat, n_add = (+), n_div = (\<lambda>x k. x / of_nat k),
            n_times100 = (\<lambda>x. 100 * x)\<rparr>"

section \<open>Properties of the corpus reader\<close>

lemma unpack2_Inr_iff: "(\<exists>p. unpack2 xs = Inr p) \<longleftrightarrow> length xs = 2"
  by (induction xs rule: unpack2.induct) auto

lemma unpack2_error: "unpack2 xs = Inl e \<Longrightarrow> \<exists>u. e = ValueError_unpack u"
  by (induction xs rule: unpack2.induct) auto

lemma read_line_error: "read_line st raw = Inl e \<Longrightarrow> \<exists>u. e = ValueError_unpack u"
  by (auto simp: read_line_def Let_def split: if_splits sum.splits dest: unpack2_error)

lemma read_line_malformed:
  assumes "strip raw \<noteq> []" "length (split (strip raw)) \<noteq> 2"
  shows "\<exists>u. read_line st raw = Inl (ValueError_unpack u)"
proof -
  from assms(2) unpack2_Inr_iff [of "split (strip raw)"]
  obtain e where e: "unpack2 (split (strip raw)) = Inl e"
    by (cases "unpack2 (split (strip raw))") auto
  with unpack2_error obtain u where "e = ValueError_unpack u" by blast
  with e assms(1) show ?thesis by (simp add: read_line_def)
qed

lemma read_loop_malformed:
  assumes "raw \<in> set file_lines" "strip raw \<noteq> []" "length (split (strip raw)) \<noteq> 2"
  shows "\<exists>u. read_loop st file_lines = Inl (ValueError_unpack u)"
  using assms(1)
proof (induction file_lines arbitrary: st)
  case Nil
  then show ?case by simp
next
  case (Cons a rest)
  show ?case
  proof (cases "read_line st a")
    case (Inl e)
    then show ?thesis using read_line_error [OF Inl] by auto
  next
    case (Inr st')
    with read_line_malformed [OF assms(2,3), of st] have "a \<noteq> raw" by auto
    with Cons.prems have "raw \<in> set rest" by simp
    from Cons.IH [OF this, of st'] Inr show ?thesis by simp
  qed
qed

lemmas read_simps =
  read_data_def read_line_def strip_def split_def isspace_def whitespace_def startswith_def

lemma read_line_wellformed:
  assumes "strip raw \<noteq> []" "length (split (strip raw)) = 2"
  shows "\<exists>st'. read_line st raw = Inr st' \<and> read_tokens st' = read_tokens st \<and> read_tags st' = read_tags st"
proof -
  from assms(2) unpack2_Inr_iff [of "split (strip raw)"]
  obtain a b where "unpack2 (split (strip raw)) = Inr (a, b)" by auto
  with assms(1) show ?thesis by (simp add: read_line_def Let_def)
qed

lemma read_loop_block:
  assumes "list_all (\<lambda>raw. strip raw \<noteq> [] \<and> length (split (strip raw)) = 2) block"
  shows "\<exists>st'. read_loop st block = Inr st' \<and> read_tokens st' = read_tokens st \<and> read_tags st' = read_tags st"
  using assms
proof (induction block arbitrary: st)
  case Nil
  then show ?case by simp
next
  case (Cons raw rest)
  then obtain st1 where 1: "read_line st raw = Inr st1" "read_tokens st1 = read_tokens st" "read_tags st1 = read_tags st"
    using read_line_wellformed [of raw st] by auto
  from Cons obtain st2 where "read_loop st1 rest = Inr st2" "read_tokens st2 = read_tokens st1" "read_tags st2 = read_tags st1"
    by fastforce
  with 1 show ?case by simp
qed

lemma read_loop_append:
  "read_loop st (xs @ ys) = (case read_loop st xs of Inl e \<Rightarrow> Inl e | Inr st' \<Rightarrow> read_loop st' ys)"
  by (induction xs arbitrary: st) (auto split: sum.splits)

text \<open>
  Lines that come after the last blank line never reach the result: a block of
  well-formed lines at the end of the file leaves what \<open>read_data\<close> returns unchanged.
\<close>

lemma read_data_trailing_block:
  assumes "list_all (\<lambda>raw. strip raw \<noteq> [] \<and> length (split (strip raw)) = 2) block"
  shows "read_data (file_lines @ block) = read_data file_lines"
proof (cases "read_loop \<lparr>read_tokens = [], read_tags = [], tweet_tokens = [], tweet_tags = []\<rparr> file_lines")
  case (Inl e)
  then show ?thesis by (simp add: read_data_def read_loop_append)
next
  case (Inr st)
  from read_loop_block [OF assms, of st] obtain st' where
    "read_loop st block = Inr st'" "read_tokens st' = read_tokens st" "read_tags st' = read_tags st" by blast
  with Inr show ?thesis by (simp add: read_data_def read_loop_append)
qed

text \<open>
  Claim C1 says that a final block of (token, tag) lines with no blank line after it is
  still emitted as a sequence. On a file of two blocks, the second one not followed by a
  blank line, \<open>read_data\<close> returns the first block only: the sequence
  \<^verbatim>\<open>works/O for/O\<close> is lost.
\<close>

theorem read_data_trailing_sequence_lost:
  "read_data [''Ian B-PER\<newline>'', ''Goodfellow I-PER\<newline>'', ''\<newline>'', ''works O\<newline>'', ''for O'']
     = Inr ([[''Ian'', ''Goodfellow'']], [[''B-PER'', ''I-PER'']])"
  by (simp add: read_simps)

text \<open>
  Claim C9, as the code has it: a line that is not blank and does not split into exactly
  two fields, anywhere in the file, makes \<open>read_data\<close> raise the \<^verbatim>\<open>ValueError\<close> of the
  tuple assignment; nothing is returned.
\<close>

theorem read_data_malformed_line:
  assumes "raw \<in> set file_lines" "strip raw \<noteq> []" "length (split (strip raw)) \<noteq> 2"
  shows "\<exists>u. read_data file_lines = Inl (ValueError_unpack u)"
proof -
  from read_loop_malformed [OF assms] obtain u where
    "read_loop \<lparr>read_tokens = [], read_tags = [], tweet_tokens = [], tweet_tags = []\<rparr> file_lines
       = Inl (ValueError_unpack u)" by blast
  then show ?thesis by (simp add: read_data_def)
qed

theorem read_data_malformed_line_witness:
  "''Goodfellow I-PER extra'' \<in> set [''Ian B-PER'', ''Goodfellow I-PER extra'']
   \<and> strip ''Goodfellow I-PER extra'' \<noteq> []
   \<and> length (split (strip ''Goodfellow I-PER extra'')) \<noteq> 2
   \<and> (\<exists>u. read_data [''Ian B-PER'', ''Goodfellow I-PER extra''] = Inl (ValueError_unpack u))"
proof -
  have a: "''Goodfellow I-PER extra'' \<in> set [''Ian B-PER'', ''Goodfellow I-PER extra'']" by simp
  have b: "strip ''Goodfellow I-PER extra'' \<noteq> []" by (simp add: read_simps)
  have c: "length (split (strip ''Goodfellow I-PER extra'')) \<noteq> 2" by (simp add: read_simps)
  from read_data_malformed_line [OF a b c] a b c show ?thesis by blast
qed

text \<open>
  Claim C9 as stated asks for an error that identifies the offending line. The error
  raised holds the number of fields found and nothing else: two files whose offending
  lines differ in their text and in their position fail with the same error.
\<close>

theorem read_data_error_does_not_identify_line:
  "read_data [''Ian''] = Inl (ValueError_unpack (NotEnoughValues 1))
   \<and> read_data [''works O'', '''', ''Goodfellow''] = Inl (ValueError_unpack (NotEnoughValues 1))"
  by (simp add: read_simps)

section \<open>Properties of the dictionaries\<close>

lemma getitem_Inr:
  assumes "getitem d k = Inr (v, d')"
  shows "value_of d k = Some v" "value_of d' = value_of d" "default_factory d' = default_factory d"
    "entries d' = (if entries d k = None then (entries d)(k \<mapsto> v) else entries d)"
proof -
  show "value_of d k = Some v" "default_factory d' = default_factory d"
    "entries d' = (if entries d k = None then (entries d)(k \<mapsto> v) else entries d)"
    using assms by (auto simp: getitem_def value_of_def setitem_def split: option.splits)
  show "value_of d' = value_of d"
    using assms
    by (auto simp: getitem_def value_of_def setitem_def fun_eq_iff split: option.splits if_splits)
qed

lemma getitem_factory:
  assumes "default_factory d = Some v"
  shows "\<exists>w d'. getitem d k = Inr (w, d')"
  using assms by (simp add: getitem_def split: option.splits)

lemma getitem_present:
  assumes "entries d k = Some v"
  shows "getitem d k = Inr (v, d)"
  using assms by (simp add: getitem_def)

lemma getitems_Inr:
  assumes "getitems d ks = Inr (vs, d')"
  shows "map (value_of d) ks = map Some vs \<and> value_of d' = value_of d
         \<and> default_factory d' = default_factory d"
  using assms
proof (induction ks arbitrary: d vs)
  case Nil
  then show ?case by simp
next
  case (Cons k ks)
  from Cons.prems obtain v d1 where 1: "getitem d k = Inr (v, d1)"
    by (auto split: sum.splits)
  with Cons.prems obtain ws where 2: "getitems d1 ks = Inr (ws, d')" and vs: "vs = v # ws"
    by (auto split: sum.splits)
  from Cons.IH [OF 2] getitem_Inr [OF 1] vs show ?case by simp
qed

lemma getitems_length: "getitems d ks = Inr (vs, d') \<Longrightarrow> length vs = length ks"
  using getitems_Inr [of d ks vs d'] by (metis length_map)

lemma getitems_factory:
  assumes "default_factory d = Some v"
  shows "\<exists>vs d'. getitems d ks = Inr (vs, d') \<and> default_factory d' = Some v
          \<and> entries d' = (\<lambda>k. if k \<in> set ks \<and> entries d k = None then Some v else entries d k)"
  using assms
proof (induction ks arbitrary: d)
  case Nil
  then show ?case by simp
next
  case (Cons k ks)
  from getitem_factory [OF Cons.prems] obtain w d1 where 1: "getitem d k = Inr (w, d1)"
    by blast
  note g = getitem_Inr [OF 1]
  from g(3) Cons.prems have f1: "default_factory d1 = Some v" by simp
  from Cons.IH [OF f1] obtain vs d' where 2: "getitems d1 ks = Inr (vs, d')"
    "default_factory d' = Some v"
    "entries d' = (\<lambda>k. if k \<in> set ks \<and> entries d1 k = None then Some v else entries d1 k)"
    by blast
  from g(1) Cons.prems have w: "entries d k = None \<Longrightarrow> w = v"
    by (simp add: value_of_def)
  have "entries d' = (\<lambda>x. if x \<in> set (k # ks) \<and> entries d x = None then Some v else entries d x)"
    using 2(3) g(4) w by (auto simp: fun_eq_iff)
  with 1 2 show ?case by simp
qed

subsection \<open>\<^verbatim>\<open>build_dict\<close>: the two dictionaries are inverse to each other\<close>

lemma inverse_dicts_add:
  assumes "inverse_dicts (t, i, n)" "entries t s = None"
  shows "inverse_dicts (setitem t s n, setitem i n s, n + 1)"
proof -
  from assms(1) have inv: "\<And>s k. (entries t s = Some k) = (entries i k = Some s)"
    and dom: "dom (entries i) = {..<n}"
    and fac: "default_factory t = Some 0" "default_factory i = None"
    by (auto simp: inverse_dicts_def)
  from dom have n: "entries i n = None" by (metis domIff lessThan_iff less_irrefl)
  have "(entries (setitem t s n) s' = Some k) = (entries (setitem i n s) k = Some s')" for s' k
    using inv [of s' k] assms(2) n by (auto simp: setitem_def)
  moreover have "dom (entries (setitem i n s)) = {..<n + 1}"
    using dom by (auto simp: setitem_def)
  ultimately show ?thesis using fac by (simp add: inverse_dicts_def setitem_def)
qed

lemma special_loop_inverse:
  assumes "inverse_dicts st" "distinct special" "set special \<inter> keys_of st = {}"
  shows "inverse_dicts (special_loop st special)
         \<and> keys_of (special_loop st special) = keys_of st \<union> set special"
  using assms
proof (induction st special rule: special_loop.induct)
  case (1 st)
  then show ?case by simp
next
  case (2 t i n s rest)
  from "2.prems"(3) have none: "entries t s = None" by (auto simp: keys_of_def)
  have a: "inverse_dicts (setitem t s n, setitem i n s, n + 1)"
    by (rule inverse_dicts_add [OF "2.prems"(1) none])
  have k: "keys_of (setitem t s n, setitem i n s, n + 1) = insert s (keys_of (t, i, n))"
    by (simp add: keys_of_def setitem_def)
  have b: "distinct rest" using "2.prems"(2) by simp
  have c: "set rest \<inter> keys_of (setitem t s n, setitem i n s, n + 1) = {}"
    using "2.prems"(2,3) k by auto
  from "2.IH" [OF a b c] k show ?case by auto
qed

lemma seq_loop_inverse:
  assumes "inverse_dicts st"
  shows "inverse_dicts (seq_loop st seq) \<and> keys_of (seq_loop st seq) = keys_of st \<union> set seq"
  using assms
proof (induction st seq rule: seq_loop.induct)
  case (1 st)
  then show ?case by simp
next
  case (2 t i n tok rest)
  show ?case
  proof (cases "contains t tok")
    case True
    then have "tok \<in> keys_of (t, i, n)" by (auto simp: contains_def keys_of_def)
    with "2.IH"(2) [OF _ "2.prems"] True show ?thesis by auto
  next
    case False
    then have none: "entries t tok = None" by (simp add: contains_def)
    have a: "inverse_dicts (setitem t tok n, setitem i n tok, n + 1)"
      by (rule inverse_dicts_add [OF "2.prems" none])
    have k: "keys_of (setitem t tok n, setitem i n tok, n + 1) = insert tok (keys_of (t, i, n))"
      by (simp add: keys_of_def setitem_def)
    from "2.IH"(1) [OF False a] k False show ?thesis by auto
  qed
qed

lemma corpus_loop_inverse:
  assumes "inverse_dicts st"
  shows "inverse_dicts (corpus_loop st seqs)
         \<and> keys_of (corpus_loop st seqs) = keys_of st \<union> \<Union>(set ` set seqs)"
  using assms
proof (induction seqs arbitrary: st)
  case Nil
  then show ?case by simp
next
  case (Cons seq seqs)
  from seq_loop_inverse [OF Cons.prems, of seq] Cons.IH [of "seq_loop st seq"]
  show ?case by auto
qed

lemma inverse_dicts_init: "inverse_dicts (defaultdict 0, dict_new, 0)"
  by (simp add: inverse_dicts_def defaultdict_def dict_new_def)

lemma build_dict_inverse:
  assumes "distinct special" "build_dict seqs special = (tok2idx, idx2tok)"
  shows "\<exists>index. inverse_dicts (tok2idx, idx2tok, index)"
    and "dom (entries tok2idx) = set special \<union> \<Union>(set ` set seqs)"
proof -
  let ?s0 = "(defaultdict 0, dict_new, 0) :: 'a dict_state"
  have k0: "keys_of ?s0 = {}" by (simp add: keys_of_def defaultdict_def)
  from special_loop_inverse [OF inverse_dicts_init assms(1)] k0
  have 1: "inverse_dicts (special_loop ?s0 special)"
    "keys_of (special_loop ?s0 special) = set special" by auto
  from corpus_loop_inverse [OF 1(1), of seqs] 1(2)
  have 2: "inverse_dicts (corpus_loop (special_loop ?s0 special) seqs)"
    "keys_of (corpus_loop (special_loop ?s0 special) seqs) = set special \<union> \<Union>(set ` set seqs)"
    by auto
  obtain t i n where tin: "corpus_loop (special_loop ?s0 special) seqs = (t, i, n)"
    by (cases "corpus_loop (special_loop ?s0 special) seqs") auto
  with assms(2) have eq: "tok2idx = t" "idx2tok = i" by (auto simp: build_dict_def)
  from 2(1) tin eq show "\<exists>index. inverse_dicts (tok2idx, idx2tok, index)" by auto
  from 2(2) tin eq show "dom (entries tok2idx) = set special \<union> \<Union>(set ` set seqs)"
    by (simp add: keys_of_def)
qed

lemma seq_loop_keeps:
  assumes "entries t s = Some k" "seq_loop (t, i, n) seq = (t', i', n')"
  shows "entries t' s = Some k"
  using assms
proof (induction "(t, i, n)" seq arbitrary: t i n rule: seq_loop.induct)
  case 1
  then show ?case by simp
next
  case (2 t i n tok rest)
  show ?case
  proof (cases "contains t tok")
    case True
    with 2 show ?thesis by simp
  next
    case False
    with "2.prems"(1) have "tok \<noteq> s" by (auto simp: contains_def)
    with "2.prems"(1) have "entries (setitem t tok n) s = Some k" by (simp add: setitem_def)
    from "2.hyps"(1) [OF False this] "2.prems"(2) False show ?thesis by simp
  qed
qed

lemma corpus_loop_keeps:
  assumes "entries t s = Some k" "corpus_loop (t, i, n) seqs = (t', i', n')"
  shows "entries t' s = Some k"
  using assms
proof (induction seqs arbitrary: t i n)
  case Nil
  then show ?case by simp
next
  case (Cons seq seqs)
  obtain t1 i1 n1 where 1: "seq_loop (t, i, n) seq = (t1, i1, n1)"
    by (cases "seq_loop (t, i, n) seq") auto
  from seq_loop_keeps [OF Cons.prems(1) 1] have "entries t1 s = Some k" .
  from Cons.IH [OF this] Cons.prems(2) 1 show ?case by simp
qed

lemma build_dict_special_tokens:
  assumes "build_dict seqs special_tokens = (tok2idx, idx2tok)"
  shows "entries tok2idx ''<UNK>'' = Some 0" "entries tok2idx ''<PAD>'' = Some 1"
proof -
  let ?st = "special_loop (defaultdict 0, dict_new, 0) special_tokens"
  obtain t i n where 1: "?st = (t, i, n)" by (cases ?st) auto
  then have e: "entries t ''<UNK>'' = Some 0" "entries t ''<PAD>'' = Some 1"
    by (auto simp: special_tokens_def setitem_def defaultdict_def)
  obtain t' i' n' where 2: "corpus_loop (t, i, n) seqs = (t', i', n')"
    by (cases "corpus_loop (t, i, n) seqs") auto
  with 1 assms have "tok2idx = t'" by (simp add: build_dict_def)
  with corpus_loop_keeps [OF e(1) 2] corpus_loop_keeps [OF e(2) 2]
  show "entries tok2idx ''<UNK>'' = Some 0" "entries tok2idx ''<PAD>'' = Some 1" by auto
qed

lemma build_dict_special_tags:
  assumes "build_dict seqs special_tags = (tok2idx, idx2tok)"
  shows "entries tok2idx ''O'' = Some 0"
proof -
  let ?st = "special_loop (defaultdict 0, dict_new, 0) special_tags"
  obtain t i n where 1: "?st = (t, i, n)" by (cases ?st) auto
  then have e: "entries t ''O'' = Some 0"
    by (auto simp: special_tags_def setitem_def defaultdict_def)
  obtain t' i' n' where 2: "corpus_loop (t, i, n) seqs = (t', i', n')"
    by (cases "corpus_loop (t, i, n) seqs") auto
  with 1 assms have "tok2idx = t'" by (simp add: build_dict_def)
  with corpus_loop_keeps [OF e 2] show ?thesis by auto
qed

lemma distinct_special: "distinct special_tokens" "distinct special_tags"
  by (simp_all add: special_tokens_def special_tags_def)

lemma create_dictionaries_factories:
  "default_factory (token2idx (create_dictionaries tr va tg)) = Some 0"
  "default_factory (tag2idx (create_dictionaries tr va tg)) = Some 0"
  "default_factory (idx2token (create_dictionaries tr va tg)) = None"
  "default_factory (idx2tag (create_dictionaries tr va tg)) = None"
proof -
  obtain a b where 1: "build_dict (tr @ va) special_tokens = (a, b)"
    by (cases "build_dict (tr @ va) special_tokens") auto
  obtain c d where 2: "build_dict tg special_tags = (c, d)"
    by (cases "build_dict tg special_tags") auto
  from build_dict_inverse(1) [OF distinct_special(1) 1] build_dict_inverse(1) [OF distinct_special(2) 2]
  show "default_factory (token2idx (create_dictionaries tr va tg)) = Some 0"
    "default_factory (tag2idx (create_dictionaries tr va tg)) = Some 0"
    "default_factory (idx2token (create_dictionaries tr va tg)) = None"
    "default_factory (idx2tag (create_dictionaries tr va tg)) = None"
    using 1 2 by (auto simp: create_dictionaries_def inverse_dicts_def)
qed

lemma create_dictionaries_token2idx:
  "token2idx (create_dictionaries tr va tg) = fst (build_dict (tr @ va) special_tokens)"
  by (simp add: create_dictionaries_def split: prod.splits)

lemmas dict_simps =
  create_dictionaries_def build_dict_def special_tokens_def special_tags_def
  defaultdict_def dict_new_def setitem_def contains_def getitem_def
  words2idxs_def tags2idxs_def idxs2words_def idxs2tags_def

text \<open>
  Claim C7: when the reserved list has no duplicates, every symbol that \<^verbatim>\<open>build_dict\<close>
  gave an id (the reserved ones and those of the corpus) is mapped by \<open>tok2idx\<close> to an
  id that \<open>idx2tok\<close> maps back to it, every id of \<open>idx2tok\<close> is mapped to a symbol that
  \<open>tok2idx\<close> maps back to it, and the symbols that have an id are exactly the reserved
  ones and those of the corpus. Neither lookup changes its dictionary.
\<close>

theorem build_dict_round_trip:
  assumes "distinct special" "build_dict seqs special = (tok2idx, idx2tok)"
  shows "(\<forall>s \<in> set special \<union> \<Union>(set ` set seqs).
            \<exists>i. getitem tok2idx s = Inr (i, tok2idx) \<and> getitem idx2tok i = Inr (s, idx2tok))
       \<and> (\<forall>i s. getitem idx2tok i = Inr (s, idx2tok) \<longrightarrow> getitem tok2idx s = Inr (i, tok2idx))
       \<and> dom (entries tok2idx) = set special \<union> \<Union>(set ` set seqs)"
proof -
  from build_dict_inverse [OF assms] obtain index where
    inv: "inverse_dicts (tok2idx, idx2tok, index)"
    and dom: "dom (entries tok2idx) = set special \<union> \<Union>(set ` set seqs)" by blast
  from inv have iff: "\<And>s k. (entries tok2idx s = Some k) = (entries idx2tok k = Some s)"
    and fac: "default_factory idx2tok = None"
    by (auto simp: inverse_dicts_def)
  have a: "\<exists>i. getitem tok2idx s = Inr (i, tok2idx) \<and> getitem idx2tok i = Inr (s, idx2tok)"
    if "s \<in> set special \<union> \<Union>(set ` set seqs)" for s
  proof -
    from that dom obtain i where i: "entries tok2idx s = Some i" by blast
    with iff have "entries idx2tok i = Some s" by simp
    with i show ?thesis by (auto simp: getitem_present)
  qed
  have b: "getitem tok2idx s = Inr (i, tok2idx)" if "getitem idx2tok i = Inr (s, idx2tok)" for i s
  proof -
    from that fac have "entries idx2tok i = Some s"
      by (auto simp: getitem_def split: option.splits)
    with iff have "entries tok2idx s = Some i" by simp
    then show ?thesis by (rule getitem_present)
  qed
  from a b dom show ?thesis by blast
qed

theorem build_dict_round_trip_witness:
  "distinct [''<UNK>'', ''<PAD>'']
   \<and> (\<exists>i. getitem (fst (build_dict [[''hello'']] [''<UNK>'', ''<PAD>''])) ''hello''
             = Inr (i, fst (build_dict [[''hello'']] [''<UNK>'', ''<PAD>'']))
          \<and> getitem (snd (build_dict [[''hello'']] [''<UNK>'', ''<PAD>''])) i
             = Inr (''hello'', snd (build_dict [[''hello'']] [''<UNK>'', ''<PAD>''])))"
proof -
  have d: "distinct [''<UNK>'', ''<PAD>'']" by simp
  have e: "build_dict [[''hello'']] [''<UNK>'', ''<PAD>'']
           = (fst (build_dict [[''hello'']] [''<UNK>'', ''<PAD>'']),
              snd (build_dict [[''hello'']] [''<UNK>'', ''<PAD>'']))" by simp
  have m: "''hello'' \<in> set [''<UNK>'', ''<PAD>''] \<union> \<Union>(set ` set [[''hello'']])" by simp
  from build_dict_round_trip [OF d e] m d show ?thesis by blast
qed

text \<open>
  Claim C3 says that no lookup changes the symbol-to-id mapping. \<^verbatim>\<open>tok2idx\<close> is a
  \<^verbatim>\<open>defaultdict\<close>: looking up \<^verbatim>\<open>world\<close>, which has no id, stores it with id 0. Before
  the call of \<open>words2idxs\<close> the dictionary has no entry for \<^verbatim>\<open>world\<close>, after it has one.
\<close>

theorem words2idxs_inserts_key:
  "entries (token2idx (create_dictionaries [[''hello'']] [] [[''O'']])) ''world'' = None
   \<and> (case words2idxs (create_dictionaries [[''hello'']] [] [[''O'']]) [''world''] of
        Inl e \<Rightarrow> False
      | Inr (ids, g') \<Rightarrow> ids = [0] \<and> entries (token2idx g') ''world'' = Some 0)"
  by (simp add: dict_simps)

text \<open>
  Claim C3, as the code has it: with the dictionaries that the notebook creates, a call
  of \<open>words2idxs\<close> returns, and afterwards \<^verbatim>\<open>token2idx\<close> has the entries it had before
  and, with id 0, every looked-up symbol that had no entry. The entry of a symbol that
  had one is unchanged, and so are the other three dictionaries.
\<close>

theorem words2idxs_frame:
  assumes "g = create_dictionaries train_tokens validation_tokens train_tags"
  shows "\<exists>ids g'. words2idxs g ws = Inr (ids, g')
       \<and> entries (token2idx g')
           = (\<lambda>k. if k \<in> set ws \<and> entries (token2idx g) k = None then Some 0
                   else entries (token2idx g) k)
       \<and> default_factory (token2idx g') = default_factory (token2idx g)
       \<and> idx2token g' = idx2token g \<and> tag2idx g' = tag2idx g \<and> idx2tag g' = idx2tag g"
proof -
  from assms have "default_factory (token2idx g) = Some 0"
    by (simp add: create_dictionaries_factories)
  from getitems_factory [OF this, of ws] obtain vs d' where
    "getitems (token2idx g) ws = Inr (vs, d')" "default_factory d' = Some 0"
    "entries d' = (\<lambda>k. if k \<in> set ws \<and> entries (token2idx g) k = None then Some 0
                        else entries (token2idx g) k)" by blast
  with \<open>default_factory (token2idx g) = Some 0\<close> show ?thesis
    by (simp add: words2idxs_def)
qed

theorem words2idxs_frame_witness:
  "\<exists>ids g'. words2idxs (create_dictionaries [[''hello'']] [] [[''O'']]) [''hello'', ''world'']
               = Inr (ids, g')
     \<and> entries (token2idx g') ''hello'' = Some 2
     \<and> entries (token2idx g') ''world'' = Some 0
     \<and> entries (token2idx g') ''other'' = None
     \<and> idx2token g' = idx2token (create_dictionaries [[''hello'']] [] [[''O'']])"
proof -
  have e: "entries (token2idx (create_dictionaries [[''hello'']] [] [[''O'']]))
             = [''<UNK>'' \<mapsto> 0, ''<PAD>'' \<mapsto> 1, ''hello'' \<mapsto> 2]"
    by (simp add: dict_simps numeral_2_eq_2)
  from words2idxs_frame [OF refl, of "[[''hello'']]" "[]" "[[''O'']]" "[''hello'', ''world'']"]
  show ?thesis unfolding e by fastforce
qed

text \<open>
  Claim C8: a token that is neither a reserved symbol nor a token of the training and
  validation data has no id. With the dictionaries the notebook creates, \<open>words2idxs\<close>
  returns (it does not raise), the id it gives at every position of such a token is 0,
  and 0 is the id of \<^verbatim>\<open><UNK>\<close>.
\<close>

theorem unknown_token_maps_to_unk:
  assumes "t \<notin> set special_tokens" "t \<notin> \<Union>(set ` set (train_tokens @ validation_tokens))"
    and "g = create_dictionaries train_tokens validation_tokens train_tags"
  shows "\<exists>ids g'. words2idxs g ws = Inr (ids, g') \<and> length ids = length ws
          \<and> (\<forall>j<length ws. ws ! j = t \<longrightarrow> ids ! j = 0)
          \<and> entries (token2idx g) ''<UNK>'' = Some 0"
proof -
  let ?d = "token2idx g"
  obtain a b where ab: "build_dict (train_tokens @ validation_tokens) special_tokens = (a, b)"
    by (cases "build_dict (train_tokens @ validation_tokens) special_tokens") auto
  with assms(3) have d: "?d = a" by (simp add: create_dictionaries_def split: prod.splits)
  from build_dict_inverse(2) [OF distinct_special(1) ab] assms(1,2) d
  have none: "entries ?d t = None" by blast
  from assms(3) have fac: "default_factory ?d = Some 0"
    by (simp add: create_dictionaries_factories)
  from none fac have v: "value_of ?d t = Some 0" by (simp add: value_of_def)
  from getitems_factory [OF fac, of ws] obtain ids d' where
    gi: "getitems ?d ws = Inr (ids, d')" by blast
  from getitems_Inr [OF gi] have m: "map (value_of ?d) ws = map Some ids" by simp
  have len: "length ids = length ws" using getitems_length [OF gi] .
  have z: "ids ! j = 0" if "j < length ws" "ws ! j = t" for j
  proof -
    from m that(1) len have "value_of ?d (ws ! j) = Some (ids ! j)"
      by (metis nth_map)
    with that(2) v show ?thesis by simp
  qed
  from build_dict_special_tokens(1) [OF ab] d have "entries ?d ''<UNK>'' = Some 0" by simp
  with gi len z show ?thesis by (auto simp: words2idxs_def)
qed

theorem unknown_token_maps_to_unk_witness:
  "''world'' \<notin> set special_tokens \<and> ''world'' \<notin> \<Union>(set ` set ([[''hello'']] @ []))
   \<and> (\<exists>ids g'. words2idxs (create_dictionaries [[''hello'']] [] [[''O'']])
                  [''hello'', ''world''] = Inr (ids, g')
         \<and> ids ! 1 = 0)"
proof -
  have a: "''world'' \<notin> set special_tokens" by (simp add: special_tokens_def)
  have b: "''world'' \<notin> \<Union>(set ` set ([[''hello'']] @ []))" by simp
  from unknown_token_maps_to_unk [OF a b refl, of "[[''O'']]" "[''hello'', ''world'']"]
  obtain ids g' where
    "words2idxs (create_dictionaries [[''hello'']] [] [[''O'']]) [''hello'', ''world'']
       = Inr (ids, g')"
    "\<forall>j<length [''hello'', ''world'']. [''hello'', ''world''] ! j = ''world'' \<longrightarrow> ids ! j = 0"
    by blast
  then have "words2idxs (create_dictionaries [[''hello'']] [] [[''O'']]) [''hello'', ''world'']
       = Inr (ids, g') \<and> ids ! 1 = 0" by simp
  with a b show ?thesis by blast
qed

section \<open>Properties of the batch generator\<close>

lemma words2idxs_Inr:
  assumes "words2idxs g ws = Inr (ids, g1)"
  shows "map (value_of (token2idx g)) ws = map Some ids"
    "value_of (token2idx g1) = value_of (token2idx g)" "tag2idx g1 = tag2idx g"
proof -
  from assms obtain d where d: "getitems (token2idx g) ws = Inr (ids, d)"
    and g1: "g1 = g\<lparr>token2idx := d\<rparr>"
    by (auto simp: words2idxs_def split: sum.splits)
  from getitems_Inr [OF d] g1
  show "map (value_of (token2idx g)) ws = map Some ids"
    "value_of (token2idx g1) = value_of (token2idx g)" "tag2idx g1 = tag2idx g"
    by simp_all
qed

lemma tags2idxs_Inr:
  assumes "tags2idxs g ts = Inr (ids, g1)"
  shows "map (value_of (tag2idx g)) ts = map Some ids"
    "value_of (tag2idx g1) = value_of (tag2idx g)" "token2idx g1 = token2idx g"
proof -
  from assms obtain d where d: "getitems (tag2idx g) ts = Inr (ids, d)"
    and g1: "g1 = g\<lparr>tag2idx := d\<rparr>"
    by (auto simp: tags2idxs_def split: sum.splits)
  from getitems_Inr [OF d] g1
  show "map (value_of (tag2idx g)) ts = map Some ids"
    "value_of (tag2idx g1) = value_of (tag2idx g)" "token2idx g1 = token2idx g"
    by simp_all
qed

lemma collect_rows_Inr:
  assumes "collect_rows g tokens tags idxs (xl0, yl0, m0) = Inr ((xl, yl, m), g1)"
  shows "\<exists>xs ys. xl = xl0 @ xs \<and> yl = yl0 @ ys
     \<and> map (map Some) xs = map (\<lambda>idx. map (value_of (token2idx g)) (tokens ! idx)) idxs
     \<and> map (map Some) ys = map (\<lambda>idx. map (value_of (tag2idx g)) (tags ! idx)) idxs
     \<and> m = fold max (map (\<lambda>idx. length (tags ! idx)) idxs) m0
     \<and> value_of (token2idx g1) = value_of (token2idx g)
     \<and> value_of (tag2idx g1) = value_of (tag2idx g)
     \<and> list_all (\<lambda>idx. idx < length tokens \<and> idx < length tags) idxs"
  using assms
proof (induction idxs arbitrary: g xl0 yl0 m0)
  case Nil
  then show ?case by simp
next
  case (Cons idx rest)
  from Cons.prems have r: "idx < length tokens"
    by (auto split: if_splits)
  with Cons.prems obtain xs g2 where w: "words2idxs g (tokens ! idx) = Inr (xs, g2)"
    by (auto split: sum.splits)
  with Cons.prems r have r2: "idx < length tags"
    by (auto split: if_splits)
  with Cons.prems r w obtain ys g3 where t: "tags2idxs g2 (tags ! idx) = Inr (ys, g3)"
    by (auto split: sum.splits)
  with Cons.prems r r2 w have rec: "collect_rows g3 tokens tags rest
      (xl0 @ [xs], yl0 @ [ys], max m0 (length (tags ! idx))) = Inr ((xl, yl, m), g1)"
    by simp
  note W = words2idxs_Inr [OF w] and T = tags2idxs_Inr [OF t]
  have v3: "value_of (token2idx g3) = value_of (token2idx g)"
    "value_of (tag2idx g3) = value_of (tag2idx g)"
    using W T by simp_all
  from Cons.IH [OF rec] obtain xs' ys' where ih:
    "xl = (xl0 @ [xs]) @ xs'" "yl = (yl0 @ [ys]) @ ys'"
    "map (map Some) xs' = map (\<lambda>idx. map (value_of (token2idx g3)) (tokens ! idx)) rest"
    "map (map Some) ys' = map (\<lambda>idx. map (value_of (tag2idx g3)) (tags ! idx)) rest"
    "m = fold max (map (\<lambda>idx. length (tags ! idx)) rest) (max m0 (length (tags ! idx)))"
    "value_of (token2idx g1) = value_of (token2idx g3)"
    "value_of (tag2idx g1) = value_of (tag2idx g3)"
    "list_all (\<lambda>idx. idx < length tokens \<and> idx < length tags) rest"
    by blast
  have ty: "map (value_of (tag2idx g)) (tags ! idx) = map Some ys"
    using T(1) W(3) by simp
  have a: "xl = xl0 @ xs # xs'" using ih(1) by simp
  have b: "yl = yl0 @ ys # ys'" using ih(2) by simp
  have c: "map (map Some) (xs # xs')
          = map (\<lambda>idx. map (value_of (token2idx g)) (tokens ! idx)) (idx # rest)"
    using ih(3) W(1) v3(1) by simp
  have d: "map (map Some) (ys # ys')
          = map (\<lambda>idx. map (value_of (tag2idx g)) (tags ! idx)) (idx # rest)"
    using ih(4) ty v3(2) by simp
  have e: "m = fold max (map (\<lambda>idx. length (tags ! idx)) (idx # rest)) m0"
    using ih(5) by (simp add: max.commute)
  have f: "value_of (token2idx g1) = value_of (token2idx g)" using ih(6) v3(1) by simp
  have h: "value_of (tag2idx g1) = value_of (tag2idx g)" using ih(7) v3(2) by simp
  have i: "list_all (\<lambda>idx. idx < length tokens \<and> idx < length tags) (idx # rest)"
    using ih(8) r r2 by simp
  from a b c d e f h i show ?case by blast
qed

lemma fold_max_Max:
  "fold max (ns :: nat list) m0 = Max (insert m0 (set ns))"
proof (induction ns arbitrary: m0)
  case Nil
  then show ?case by simp
next
  case (Cons n ns)
  have "Max (insert (max n m0) (set ns)) = Max (insert m0 (insert n (set ns)))"
  proof (cases "set ns = {}")
    case True
    then show ?thesis by (simp add: max.commute)
  next
    case False
    then show ?thesis by (simp add: max.assoc max.commute max.left_commute)
  qed
  with Cons show ?case by simp
qed

lemma slice_assign_fits:
  assumes "length vals \<le> w"
  shows "slice_assign (replicate w p) (length vals) vals = Inr (vals @ replicate (w - length vals) p)"
  using assms by (simp add: slice_assign_def min_def)

lemma update_filled:
  "(xs @ replicate (Suc j) a)[length xs := v] = (xs @ [v]) @ replicate j a"
  by (simp add: list_update_append)

lemma fill_rows_from:
  assumes "length xl = B" "length yl = B" "m \<le> B"
    and "\<And>n. n < B \<Longrightarrow> length (yl ! n) = length (xl ! n) \<and> length (xl ! n) \<le> W"
  shows "fill_rows xl yl [m..<B]
           \<lparr>x_batch = take m (map (\<lambda>r. r @ replicate (W - length r) p) xl) @ replicate (B - m) (replicate W p),
            y_batch = take m (map (\<lambda>r. r @ replicate (W - length r) q) yl) @ replicate (B - m) (replicate W q),
            lengths = take m (map length xl) @ replicate (B - m) 0\<rparr>
         = Inr \<lparr>x_batch = map (\<lambda>r. r @ replicate (W - length r) p) xl,
                y_batch = map (\<lambda>r. r @ replicate (W - length r) q) yl,
                lengths = map length xl\<rparr>"
  using assms(3)
proof (induction "B - m" arbitrary: m)
  case 0
  with assms(1,2) show ?case by simp
next
  case (Suc j)
  let ?FX = "map (\<lambda>r. r @ replicate (W - length r) p) xl"
  let ?FY = "map (\<lambda>r. r @ replicate (W - length r) q) yl"
  let ?FL = "map length xl"
  from Suc.hyps(2) have mB: "m < B" and j: "B - m = Suc j" "j = B - Suc m" by simp_all
  have up: "[m..<B] = m # [Suc m..<B]" using mB by (simp add: upt_conv_Cons)
  have lx: "length (take m ?FX) = m" "length (take m ?FY) = m" "length (take m ?FL) = m"
    using mB assms(1,2) by simp_all
  have xm: "(take m ?FX @ replicate (B - m) (replicate W p)) ! m = replicate W p"
    using lx(1) mB by (simp add: nth_append)
  have ym: "(take m ?FY @ replicate (B - m) (replicate W q)) ! m = replicate W q"
    using lx(2) mB by (simp add: nth_append)
  from assms(4) [OF mB] have len: "length (yl ! m) = length (xl ! m)" "length (xl ! m) \<le> W"
    by simp_all
  have sx: "slice_assign (replicate W p) (length (xl ! m)) (xl ! m)
            = Inr (xl ! m @ replicate (W - length (xl ! m)) p)"
    by (rule slice_assign_fits [OF len(2)])
  have sy: "slice_assign (replicate W q) (length (xl ! m)) (yl ! m)
            = Inr (yl ! m @ replicate (W - length (yl ! m)) q)"
    using slice_assign_fits [of "yl ! m" W q] len by simp
  have tx: "take (Suc m) ?FX = take m ?FX @ [xl ! m @ replicate (W - length (xl ! m)) p]"
    using mB assms(1) by (simp add: take_Suc_conv_app_nth)
  have ty: "take (Suc m) ?FY = take m ?FY @ [yl ! m @ replicate (W - length (yl ! m)) q]"
    using mB assms(2) by (simp add: take_Suc_conv_app_nth)
  have tl: "take (Suc m) ?FL = take m ?FL @ [length (xl ! m)]"
    using mB assms(1) by (simp add: take_Suc_conv_app_nth)
  have ux: "(take m ?FX @ replicate (B - m) (replicate W p))[m := xl ! m @ replicate (W - length (xl ! m)) p]
            = take (Suc m) ?FX @ replicate (B - Suc m) (replicate W p)"
    using update_filled [of "take m ?FX" j] lx(1) j tx by simp
  have uy: "(take m ?FY @ replicate (B - m) (replicate W q))[m := yl ! m @ replicate (W - length (yl ! m)) q]
            = take (Suc m) ?FY @ replicate (B - Suc m) (replicate W q)"
    using update_filled [of "take m ?FY" j] lx(2) j ty by simp
  have ul: "(take m ?FL @ replicate (B - m) 0)[m := length (xl ! m)]
            = take (Suc m) ?FL @ replicate (B - Suc m) 0"
    using update_filled [of "take m ?FL" j] lx(3) j tl by simp
  have ih: "fill_rows xl yl [Suc m..<B]
           \<lparr>x_batch = take (Suc m) ?FX @ replicate (B - Suc m) (replicate W p),
            y_batch = take (Suc m) ?FY @ replicate (B - Suc m) (replicate W q),
            lengths = take (Suc m) ?FL @ replicate (B - Suc m) 0\<rparr>
         = Inr \<lparr>x_batch = ?FX, y_batch = ?FY, lengths = ?FL\<rparr>"
    using Suc.hyps(1) [of "Suc m"] j mB by simp
  have nx: "\<not> length xl \<le> m" using mB assms(1) by simp
  show ?case
    unfolding up fill_rows.simps
    using nx by (simp only: if_False Let_def batch.simps xm ym sx sy sum.case ux uy ul ih)
qed

lemma fill_rows_ok:
  assumes "length xl = B" "length yl = B"
    and "\<And>n. n < B \<Longrightarrow> length (yl ! n) = length (xl ! n) \<and> length (xl ! n) \<le> W"
  shows "fill_rows xl yl [0..<B]
           \<lparr>x_batch = replicate B (replicate W p), y_batch = replicate B (replicate W q),
            lengths = replicate B 0\<rparr>
         = Inr \<lparr>x_batch = map (\<lambda>r. r @ replicate (W - length r) p) xl,
                y_batch = map (\<lambda>r. r @ replicate (W - length r) q) yl,
                lengths = map length xl\<rparr>"
  using fill_rows_from [where m = 0 and W = W and p = p and q = q, OF assms(1,2) _ assms(3)]
  by simp


subsection \<open>The bounds of a batch\<close>

lemma n_batches_positive:
  assumes "bsize \<noteq> 0" "0 < n_batches_of bsize n allow"
  shows "0 < bsize"
proof (rule ccontr)
  assume "\<not> 0 < bsize"
  with assms(1) have neg: "bsize < 0" by simp
  then have d: "int n div bsize \<le> 0"
    by (simp add: div_nonneg_neg_le0)
  have "int n div bsize < 0" if "int n mod bsize \<noteq> 0"
  proof -
    from neg have "int n mod bsize \<le> 0" by simp
    with that have "int n mod bsize < 0" by simp
    moreover have "int n = bsize * (int n div bsize) + int n mod bsize" by simp
    ultimately have "bsize * (int n div bsize) > 0" by linarith
    with neg show ?thesis by (simp add: zero_less_mult_iff)
  qed
  with d assms(2) show False
    by (auto simp: n_batches_of_def Let_def split: if_splits)
qed

lemma batch_start_in_range:
  assumes "0 < bsize" "int k < n_batches_of bsize n allow"
  shows "int k * bsize < int n"
proof -
  let ?q = "int n div bsize"
  have dm: "int n = bsize * ?q + int n mod bsize" by simp
  have m: "0 \<le> int n mod bsize" using assms(1) by simp
  show ?thesis
  proof (cases "allow \<and> int n mod bsize \<noteq> 0")
    case True
    with assms(2) have "int k \<le> ?q" by (simp add: n_batches_of_def)
    with assms(1) have "int k * bsize \<le> bsize * ?q"
      by (simp add: mult.commute)
    moreover from True m have "0 < int n mod bsize" by simp
    ultimately show ?thesis using dm by linarith
  next
    case False
    with assms(2) have "int k + 1 \<le> ?q" by (auto simp: n_batches_of_def)
    with assms(1) have "(int k + 1) * bsize \<le> bsize * ?q"
      by (simp add: mult.commute)
    then have "int k * bsize + bsize \<le> bsize * ?q"
      by (simp add: algebra_simps)
    with assms(1) m dm show ?thesis by linarith
  qed
qed

lemma slice_bound_nat: "slice_bound n (int a) = min a n"
  by (simp add: slice_bound_def)

lemma batch_slice:
  assumes "0 < bsize" "int k * bsize < int (length order)"
  shows "py_slice order (int k * bsize) (min ((int k + 1) * bsize) (int (length order)))
         = take (nat bsize) (drop (k * nat bsize) order)"
    and "nat (min ((int k + 1) * bsize) (int (length order)) - int k * bsize)
         = min (nat bsize) (length order - k * nat bsize)"
proof -
  obtain s where s: "bsize = int s" "0 < s"
    using assms(1) by (metis zero_less_imp_eq_int)
  let ?n = "length order"
  from assms(2) s have ks: "k * s < ?n"
    by (metis of_nat_less_iff of_nat_mult)
  have e: "(int k + 1) * bsize = int ((k + 1) * s)" using s by (simp add: algebra_simps)
  have e0: "int k * bsize = int (k * s)" using s by simp
  have lo: "slice_bound ?n (int k * bsize) = k * s"
    unfolding e0 slice_bound_nat using ks by simp
  have e1: "min (int ((k + 1) * s)) (int ?n) = int (min ((k + 1) * s) ?n)"
    by (simp only: of_nat_min)
  have hi: "slice_bound ?n (min ((int k + 1) * bsize) (int ?n)) = min ((k + 1) * s) ?n"
    unfolding e e1 slice_bound_nat by simp
  have d: "min ((k + 1) * s) ?n - k * s = min s (?n - k * s)" using ks by (auto simp: min_def)
  have t: "take (min s (?n - k * s)) (drop (k * s) order) = take s (drop (k * s) order)"
    by (simp add: min_def)
  have ns: "nat bsize = s" using s by simp
  show "py_slice order (int k * bsize) (min ((int k + 1) * bsize) (int ?n))
         = take (nat bsize) (drop (k * nat bsize) order)"
    unfolding py_slice_def lo hi d t ns ..
  have "min ((int k + 1) * bsize) (int ?n) - int k * bsize
        = int (min ((k + 1) * s) ?n - k * s)"
    unfolding e e0 e1 using ks by (auto simp: min_def)
  then show "nat (min ((int k + 1) * bsize) (int ?n) - int k * bsize)
         = min (nat bsize) (?n - k * nat bsize)"
    unfolding d ns by simp
qed

subsection \<open>What one batch holds\<close>

lemma make_batch_Inr:
  assumes "make_batch g bsize tokens tags order k = Inr (b, g')"
  shows "\<exists>xl yl m g1 pad d1 outside d2.
     collect_rows g tokens tags
       (py_slice order (int k * bsize) (min ((int k + 1) * bsize) (int (length tokens))))
       ([], [], 0) = Inr ((xl, yl, m), g1)
     \<and> getitem (token2idx g1) ''<PAD>'' = Inr (pad, d1)
     \<and> getitem (tag2idx g1) ''O'' = Inr (outside, d2)
     \<and> fill_rows xl yl
          [0..<nat (min ((int k + 1) * bsize) (int (length tokens)) - int k * bsize)]
          \<lparr>x_batch = replicate (nat (min ((int k + 1) * bsize) (int (length tokens))
                                      - int k * bsize)) (replicate m pad),
           y_batch = replicate (nat (min ((int k + 1) * bsize) (int (length tokens))
                                      - int k * bsize)) (replicate m outside),
           lengths = replicate (nat (min ((int k + 1) * bsize) (int (length tokens))
                                      - int k * bsize)) 0\<rparr> = Inr b
     \<and> g' = g1\<lparr>token2idx := d1, tag2idx := d2\<rparr>"
proof -
  let ?sl = "py_slice order (int k * bsize)
               (min ((int k + 1) * bsize) (int (length tokens)))"
  let ?B = "nat (min ((int k + 1) * bsize) (int (length tokens)) - int k * bsize)"
  from assms obtain xl yl m g1 where
    c: "collect_rows g tokens tags ?sl ([], [], 0) = Inr ((xl, yl, m), g1)"
    by (cases "collect_rows g tokens tags ?sl ([], [], 0)") (auto simp: make_batch_def Let_def)
  from assms c obtain pad d1 where p: "getitem (token2idx g1) ''<PAD>'' = Inr (pad, d1)"
    by (cases "getitem (token2idx g1) ''<PAD>''") (auto simp: make_batch_def Let_def)
  from assms c p obtain outside d2 where q: "getitem (tag2idx g1) ''O'' = Inr (outside, d2)"
    by (cases "getitem (tag2idx g1) ''O''") (auto simp: make_batch_def Let_def)
  let ?f = "fill_rows xl yl [0..<?B]
          \<lparr>x_batch = replicate ?B (replicate m pad),
           y_batch = replicate ?B (replicate m outside),
           lengths = replicate ?B 0\<rparr>"
  from assms c p q have "?f = Inr b \<and> g' = g1\<lparr>token2idx := d1, tag2idx := d2\<rparr>"
    by (cases ?f) (auto simp: make_batch_def Let_def)
  with c p q show ?thesis by blast
qed

lemma make_batch_values:
  assumes "make_batch g bsize tokens tags order k = Inr (b, g')"
  shows "value_of (token2idx g') = value_of (token2idx g)"
    "value_of (tag2idx g') = value_of (tag2idx g)"
proof -
  from make_batch_Inr [OF assms] obtain xl yl m g1 pad d1 outside d2 idxs where
    c: "collect_rows g tokens tags idxs ([], [], 0) = Inr ((xl, yl, m), g1)"
    and p: "getitem (token2idx g1) ''<PAD>'' = Inr (pad, d1)"
    and q: "getitem (tag2idx g1) ''O'' = Inr (outside, d2)"
    and g': "g' = g1\<lparr>token2idx := d1, tag2idx := d2\<rparr>"
    by blast
  from collect_rows_Inr [OF c] have v: "value_of (token2idx g1) = value_of (token2idx g)"
    "value_of (tag2idx g1) = value_of (tag2idx g)" by auto
  from getitem_Inr(2) [OF p] getitem_Inr(2) [OF q] v g'
  show "value_of (token2idx g') = value_of (token2idx g)"
    "value_of (tag2idx g') = value_of (tag2idx g)" by simp_all
qed

text \<open>
  The rows of a batch, when every tag list is as long as its token list: row \<open>j\<close> is
  the sequence \<open>order ! (k * bsize + j)\<close>, mapped to ids and filled up to the longest
  sequence of the batch.
\<close>

lemma make_batch_rows:
  assumes mb: "make_batch g bsize tokens tags order k = Inr (b, g')"
    and pos: "0 < bsize" and ord: "length order = length tokens"
    and k: "int k * bsize < int (length tokens)"
    and eq: "\<And>idx. idx < length tokens \<Longrightarrow> length (tags ! idx) = length (tokens ! idx)"
  shows "\<exists>xs ys pad outside.
      map (map Some) xs = map (\<lambda>idx. map (value_of (token2idx g)) (tokens ! idx))
                              (take (nat bsize) (drop (k * nat bsize) order))
    \<and> map (map Some) ys = map (\<lambda>idx. map (value_of (tag2idx g)) (tags ! idx))
                              (take (nat bsize) (drop (k * nat bsize) order))
    \<and> value_of (token2idx g) ''<PAD>'' = Some pad
    \<and> value_of (tag2idx g) ''O'' = Some outside
    \<and> xs \<noteq> []
    \<and> list_all (\<lambda>idx. idx < length tokens)
         (take (nat bsize) (drop (k * nat bsize) order))
    \<and> b = \<lparr>x_batch = map (\<lambda>r. r @ replicate (Max (set (map length xs)) - length r) pad) xs,
            y_batch = map (\<lambda>r. r @ replicate (Max (set (map length xs)) - length r) outside) ys,
            lengths = map length xs\<rparr>"
proof -
  let ?idxs = "take (nat bsize) (drop (k * nat bsize) order)"
  let ?B = "min (nat bsize) (length tokens - k * nat bsize)"
  from k ord have k': "int k * bsize < int (length order)" by simp
  note sl = batch_slice [OF pos k', unfolded ord]
  from make_batch_Inr [OF mb, unfolded sl] obtain xl yl m g1 pad d1 outside d2 where
    c: "collect_rows g tokens tags ?idxs ([], [], 0) = Inr ((xl, yl, m), g1)"
    and p: "getitem (token2idx g1) ''<PAD>'' = Inr (pad, d1)"
    and q: "getitem (tag2idx g1) ''O'' = Inr (outside, d2)"
    and f: "fill_rows xl yl [0..<?B]
              \<lparr>x_batch = replicate ?B (replicate m pad),
               y_batch = replicate ?B (replicate m outside),
               lengths = replicate ?B 0\<rparr> = Inr b"
    by blast
  from collect_rows_Inr [OF c] have
    xs: "map (map Some) xl = map (\<lambda>idx. map (value_of (token2idx g)) (tokens ! idx)) ?idxs"
    and ys: "map (map Some) yl = map (\<lambda>idx. map (value_of (tag2idx g)) (tags ! idx)) ?idxs"
    and m: "m = fold max (map (\<lambda>idx. length (tags ! idx)) ?idxs) 0"
    and v: "value_of (token2idx g1) = value_of (token2idx g)"
      "value_of (tag2idx g1) = value_of (tag2idx g)"
    and r: "list_all (\<lambda>idx. idx < length tokens \<and> idx < length tags) ?idxs"
    by auto
  have lenB: "length ?idxs = ?B" using ord by simp
  have lx: "length xl = ?B" using xs lenB by (metis length_map)
  have ly: "length yl = ?B" using ys lenB by (metis length_map)
  have Bpos: "0 < ?B"
  proof -
    obtain s where s: "bsize = int s" "0 < s"
      using pos by (metis zero_less_imp_eq_int)
    with k' have "k * s < length order" by (metis of_nat_less_iff of_nat_mult)
    with s ord show ?thesis by simp
  qed
  have inr: "?idxs ! n < length tokens" if "n < ?B" for n
  proof -
    from that have "n < length ?idxs" by (simp only: lenB)
    with r [unfolded list_all_length] show ?thesis by blast
  qed
  have xlen: "length (xl ! n) = length (tokens ! (?idxs ! n))" if "n < ?B" for n
  proof -
    from xs that lx lenB have "map Some (xl ! n) = map (value_of (token2idx g)) (tokens ! (?idxs ! n))"
      by (metis (no_types, lifting) nth_map)
    then show ?thesis by (metis length_map)
  qed
  have ylen: "length (yl ! n) = length (tags ! (?idxs ! n))" if "n < ?B" for n
  proof -
    from ys that ly lenB have "map Some (yl ! n) = map (value_of (tag2idx g)) (tags ! (?idxs ! n))"
      by (metis (no_types, lifting) nth_map)
    then show ?thesis by (metis length_map)
  qed
  have same: "length (yl ! n) = length (xl ! n)" if "n < ?B" for n
    using xlen [OF that] ylen [OF that] eq [OF inr [OF that]] by simp
  have lens: "map (\<lambda>idx. length (tags ! idx)) ?idxs = map length xl"
  proof (rule nth_equalityI)
    show "length (map (\<lambda>idx. length (tags ! idx)) ?idxs) = length (map length xl)"
      using lx lenB by simp
    fix n assume "n < length (map (\<lambda>idx. length (tags ! idx)) ?idxs)"
    then have n: "n < ?B" using ord by simp
    have a: "n < length ?idxs" using n by (simp only: lenB)
    have b: "n < length xl" using n by (simp only: lx)
    have "map (\<lambda>idx. length (tags ! idx)) ?idxs ! n = length (tags ! (?idxs ! n))"
      using a by (rule nth_map)
    also have "\<dots> = length (tokens ! (?idxs ! n))" by (rule eq [OF inr [OF n]])
    also have "\<dots> = length (xl ! n)" by (rule xlen [OF n, symmetric])
    also have "\<dots> = map length xl ! n" using b by (simp only: nth_map)
    finally show "map (\<lambda>idx. length (tags ! idx)) ?idxs ! n = map length xl ! n" .
  qed
  have ne: "xl \<noteq> []" using lx Bpos by auto
  have mM: "m = Max (set (map length xl))"
  proof -
    from m lens have "m = Max (insert 0 (set (map length xl)))" by (simp add: fold_max_Max)
    also have "\<dots> = Max (set (map length xl))" using ne by simp
    finally show ?thesis .
  qed
  have le: "length (xl ! n) \<le> m" if "n < ?B" for n
  proof -
    from that lx have "length (xl ! n) \<in> set (map length xl)" by (metis length_map nth_map nth_mem)
    then show ?thesis unfolding mM by simp
  qed
  from fill_rows_ok [OF lx ly, of m pad outside] same le f
  have b: "b = \<lparr>x_batch = map (\<lambda>r. r @ replicate (m - length r) pad) xl,
                y_batch = map (\<lambda>r. r @ replicate (m - length r) outside) yl,
                lengths = map length xl\<rparr>" by simp
  from getitem_Inr(1) [OF p] v have pad: "value_of (token2idx g) ''<PAD>'' = Some pad" by simp
  from getitem_Inr(1) [OF q] v have out: "value_of (tag2idx g) ''O'' = Some outside" by simp
  from r have r': "list_all (\<lambda>idx. idx < length tokens) ?idxs" by (simp add: list_all_iff)
  from xs ys pad out ne r' b mM show ?thesis by blast
qed

subsection \<open>The loop over the batches\<close>

lemma batch_loop_Inr:
  assumes "batch_loop (g :: 'g vocab_scheme) bsize tokens tags order ks = Inr (batches, g')"
  shows "length batches = length ks
    \<and> (\<forall>j<length ks. \<exists>(gj :: 'g vocab_scheme) gj'.
          make_batch gj bsize tokens tags order (ks ! j) = Inr (batches ! j, gj')
        \<and> value_of (token2idx gj) = value_of (token2idx g)
        \<and> value_of (tag2idx gj) = value_of (tag2idx g))"
  using assms
proof (induction ks arbitrary: g batches)
  case Nil
  then show ?case by simp
next
  case (Cons k ks)
  from Cons.prems obtain b g1 where mb: "make_batch g bsize tokens tags order k = Inr (b, g1)"
    by (auto split: sum.splits)
  with Cons.prems obtain bs where rest: "batch_loop g1 bsize tokens tags order ks = Inr (bs, g')"
    and batches: "batches = b # bs"
    by (auto split: sum.splits)
  note ih = Cons.IH [OF rest]
  note v = make_batch_values [OF mb]
  have "\<exists>(gj :: 'g vocab_scheme) gj'. make_batch gj bsize tokens tags order ((k # ks) ! j) = Inr (batches ! j, gj')
        \<and> value_of (token2idx gj) = value_of (token2idx g)
        \<and> value_of (tag2idx gj) = value_of (tag2idx g)" if "j < length (k # ks)" for j
  proof (cases j)
    case 0
    with mb batches have "make_batch g bsize tokens tags order ((k # ks) ! j)
        = Inr (batches ! j, g1) \<and> value_of (token2idx g) = value_of (token2idx g)
        \<and> value_of (tag2idx g) = value_of (tag2idx g)" by simp
    then show ?thesis by blast
  next
    case (Suc i)
    with that have "i < length ks" by simp
    with ih obtain gj :: "'g vocab_scheme" and gj' where
      "make_batch gj bsize tokens tags order (ks ! i) = Inr (bs ! i, gj')"
      "value_of (token2idx gj) = value_of (token2idx g1)"
      "value_of (tag2idx gj) = value_of (tag2idx g1)" by blast
    with v Suc batches have "make_batch gj bsize tokens tags order ((k # ks) ! j)
        = Inr (batches ! j, gj') \<and> value_of (token2idx gj) = value_of (token2idx g)
        \<and> value_of (tag2idx gj) = value_of (tag2idx g)" by simp
    then show ?thesis by blast
  qed
  with ih batches show ?case by simp
qed

text \<open>
  Batch \<open>k\<close> of the generator, when every tag list is as long as its token list and the
  order has one entry for each sequence.
\<close>

lemma batches_generator_batch:
  fixes g :: "'g vocab_scheme"
  assumes gen: "batches_generator g bsize tokens tags shuffle allow permutation = Inr (batches, g')"
    and eq: "\<forall>idx<length tokens. length (tags ! idx) = length (tokens ! idx)"
    and perm: "shuffle \<longrightarrow> length permutation = length tokens"
    and k: "k < length batches"
    and order: "order = (if shuffle then permutation else [0..<length tokens])"
  shows "\<exists>xs ys pad outside.
      map (map Some) xs = map (\<lambda>idx. map (value_of (token2idx g)) (tokens ! idx))
                              (take (nat bsize) (drop (k * nat bsize) order))
    \<and> map (map Some) ys = map (\<lambda>idx. map (value_of (tag2idx g)) (tags ! idx))
                              (take (nat bsize) (drop (k * nat bsize) order))
    \<and> value_of (token2idx g) ''<PAD>'' = Some pad
    \<and> value_of (tag2idx g) ''O'' = Some outside
    \<and> xs \<noteq> []
    \<and> list_all (\<lambda>idx. idx < length tokens)
         (take (nat bsize) (drop (k * nat bsize) order))
    \<and> batches ! k
        = \<lparr>x_batch = map (\<lambda>r. r @ replicate (Max (set (map length xs)) - length r) pad) xs,
           y_batch = map (\<lambda>r. r @ replicate (Max (set (map length xs)) - length r) outside) ys,
           lengths = map length xs\<rparr>"
    and "0 < bsize" and "k * nat bsize < length tokens"
    and "length batches = nat (n_batches_of bsize (length tokens) allow)"
    and "length order = length tokens"
proof -
  let ?n = "length tokens"
  let ?nb = "n_batches_of bsize ?n allow"
  let ?b = "batches ! k"
  from gen have nz: "bsize \<noteq> 0"
    and loop: "batch_loop g bsize tokens tags order [0..<nat ?nb] = Inr (batches, g')"
    by (auto simp: batches_generator_def Let_def order split: if_splits)
  from batch_loop_Inr [OF loop] k obtain gk :: "'g vocab_scheme" and gk' where
    len: "length batches = nat ?nb"
    and mb: "make_batch gk bsize tokens tags order k = Inr (?b, gk')"
    and v: "value_of (token2idx gk) = value_of (token2idx g)"
      "value_of (tag2idx gk) = value_of (tag2idx g)"
    by fastforce
  from k len have knb: "int k < ?nb" by simp
  then have "0 < ?nb" by simp
  from n_batches_positive [OF nz this] show pos: "0 < bsize" .
  from batch_start_in_range [OF pos knb] have kin: "int k * bsize < int ?n" .
  show ord: "length order = ?n" using perm by (simp add: order)
  have eq': "\<And>idx. idx < ?n \<Longrightarrow> length (tags ! idx) = length (tokens ! idx)"
    using eq by simp
  from make_batch_rows [OF mb pos ord kin eq'] v
  show "\<exists>xs ys pad outside.
      map (map Some) xs = map (\<lambda>idx. map (value_of (token2idx g)) (tokens ! idx))
                              (take (nat bsize) (drop (k * nat bsize) order))
    \<and> map (map Some) ys = map (\<lambda>idx. map (value_of (tag2idx g)) (tags ! idx))
                              (take (nat bsize) (drop (k * nat bsize) order))
    \<and> value_of (token2idx g) ''<PAD>'' = Some pad
    \<and> value_of (tag2idx g) ''O'' = Some outside
    \<and> xs \<noteq> []
    \<and> list_all (\<lambda>idx. idx < length tokens)
         (take (nat bsize) (drop (k * nat bsize) order))
    \<and> batches ! k
        = \<lparr>x_batch = map (\<lambda>r. r @ replicate (Max (set (map length xs)) - length r) pad) xs,
           y_batch = map (\<lambda>r. r @ replicate (Max (set (map length xs)) - length r) outside) ys,
           lengths = map length xs\<rparr>"
    by simp
  show "k * nat bsize < ?n"
  proof -
    from pos have e: "int (k * nat bsize) = int k * bsize" by simp
    have "int (k * nat bsize) < int ?n"
      unfolding e using kin by simp
    then show ?thesis by (simp only: of_nat_less_iff)
  qed
  show "length batches = nat ?nb" by (rule len)
qed

lemmas batch_simps =
  batches_generator_def n_batches_of_def make_batch_def py_slice_def slice_bound_def
  slice_assign_def

subsection \<open>Padding\<close>

text \<open>
  Claim C5: take the batches that \<open>batches_generator\<close> yields for sequences whose tag
  list is as long as their token list, \<open>permutation\<close> having one entry for each
  sequence. Row \<open>i\<close> of batch \<open>k\<close> is the sequence \<open>idx\<close> at place
  \<open>k * bsize + i\<close> of the order. Its length is \<open>lengths ! i\<close>; the first
  \<open>lengths ! i\<close> columns of \<open>x\<close> are the ids that the lookup in \<^verbatim>\<open>token2idx\<close> gives the
  tokens, those of \<open>y\<close> the ids that the lookup in \<^verbatim>\<open>tag2idx\<close> gives the tags; the
  other columns of \<open>x\<close> hold the id of \<^verbatim>\<open><PAD>\<close> and those of \<open>y\<close> the id of \<^verbatim>\<open>O\<close>; and
  both rows are as wide as the longest sequence of the batch.
\<close>

theorem batches_generator_padding:
  fixes g :: "'g vocab_scheme"
  assumes gen: "batches_generator g bsize tokens tags shuffle allow permutation = Inr (batches, g')"
    and eq: "\<forall>idx<length tokens. length (tags ! idx) = length (tokens ! idx)"
    and perm: "shuffle \<longrightarrow> length permutation = length tokens"
    and k: "k < length batches" and i: "i < length (lengths (batches ! k))"
  shows "\<exists>pad outside idx W.
      idx = (if shuffle then permutation else [0..<length tokens]) ! (k * nat bsize + i)
    \<and> idx < length tokens
    \<and> lengths (batches ! k) ! i = length (tokens ! idx)
    \<and> value_of (token2idx g) ''<PAD>'' = Some pad
    \<and> value_of (tag2idx g) ''O'' = Some outside
    \<and> map Some (take (lengths (batches ! k) ! i) (x_batch (batches ! k) ! i))
        = map (value_of (token2idx g)) (tokens ! idx)
    \<and> map Some (take (lengths (batches ! k) ! i) (y_batch (batches ! k) ! i))
        = map (value_of (tag2idx g)) (tags ! idx)
    \<and> drop (lengths (batches ! k) ! i) (x_batch (batches ! k) ! i)
        = replicate (W - lengths (batches ! k) ! i) pad
    \<and> drop (lengths (batches ! k) ! i) (y_batch (batches ! k) ! i)
        = replicate (W - lengths (batches ! k) ! i) outside
    \<and> length (x_batch (batches ! k) ! i) = W \<and> length (y_batch (batches ! k) ! i) = W
    \<and> W = Max (set (lengths (batches ! k)))"
proof -
  let ?n = "length tokens"
  define order where "order = (if shuffle then permutation else [0..<?n])"
  let ?b = "batches ! k"
  let ?idxs = "take (nat bsize) (drop (k * nat bsize) order)"
  note bb = batches_generator_batch [OF gen eq perm k order_def]
  from bb(1) obtain xs ys pad outside where
    xs: "map (map Some) xs = map (\<lambda>idx. map (value_of (token2idx g)) (tokens ! idx)) ?idxs"
    and ys: "map (map Some) ys = map (\<lambda>idx. map (value_of (tag2idx g)) (tags ! idx)) ?idxs"
    and pad: "value_of (token2idx g) ''<PAD>'' = Some pad"
    and out: "value_of (tag2idx g) ''O'' = Some outside"
    and r: "list_all (\<lambda>idx. idx < ?n) ?idxs"
    and b: "?b = \<lparr>x_batch = map (\<lambda>r. r @ replicate (Max (set (map length xs)) - length r) pad) xs,
            y_batch = map (\<lambda>r. r @ replicate (Max (set (map length xs)) - length r) outside) ys,
            lengths = map length xs\<rparr>"
    by blast
  have eq': "\<And>idx. idx < ?n \<Longrightarrow> length (tags ! idx) = length (tokens ! idx)"
    using eq by simp
  let ?W = "Max (set (map length xs))"
  let ?idx = "order ! (k * nat bsize + i)"
  have lb: "lengths ?b = map length xs" "x_batch ?b = map (\<lambda>r. r @ replicate (?W - length r) pad) xs"
    "y_batch ?b = map (\<lambda>r. r @ replicate (?W - length r) outside) ys"
    by (simp_all add: b)
  from i lb(1) have ix: "i < length xs" by simp
  have lxi: "length xs = length ?idxs" using xs by (metis length_map)
  have lyi: "length ys = length ?idxs" using ys by (metis length_map)
  from ix lxi have ii: "i < length ?idxs" by simp
  have kn: "k * nat bsize \<le> length order" using bb(3,5) by simp
  from ii kn have idx: "?idxs ! i = ?idx" by simp
  from r [unfolded list_all_length] ii have "?idxs ! i < ?n" by blast
  then have inr: "?idx < ?n" unfolding idx .
  from xs ix lxi have mx: "map Some (xs ! i) = map (value_of (token2idx g)) (tokens ! ?idx)"
    using idx by (metis (no_types, lifting) nth_map)
  from ys ix lxi lyi have my: "map Some (ys ! i) = map (value_of (tag2idx g)) (tags ! ?idx)"
    using idx by (metis (no_types, lifting) nth_map)
  have lx: "length (xs ! i) = length (tokens ! ?idx)" using mx by (metis length_map)
  have ly: "length (ys ! i) = length (tokens ! ?idx)" using my eq' [OF inr] by (metis length_map)
  have li: "lengths ?b ! i = length (tokens ! ?idx)" using lb(1) ix lx by simp
  have le: "length (xs ! i) \<le> ?W" using ix by simp
  have xr: "x_batch ?b ! i = xs ! i @ replicate (?W - length (xs ! i)) pad"
    using lb(2) ix by simp
  have yr: "y_batch ?b ! i = ys ! i @ replicate (?W - length (ys ! i)) outside"
    using lb(3) ix lxi lyi by simp
  have c1: "map Some (take (lengths ?b ! i) (x_batch ?b ! i)) = map (value_of (token2idx g)) (tokens ! ?idx)"
    using xr li lx mx by simp
  have c2: "map Some (take (lengths ?b ! i) (y_batch ?b ! i)) = map (value_of (tag2idx g)) (tags ! ?idx)"
    using yr li ly my by simp
  have c3: "drop (lengths ?b ! i) (x_batch ?b ! i) = replicate (?W - lengths ?b ! i) pad"
    using xr li lx by simp
  have c4: "drop (lengths ?b ! i) (y_batch ?b ! i) = replicate (?W - lengths ?b ! i) outside"
    using yr li ly by simp
  have c5: "length (x_batch ?b ! i) = ?W" using xr le by simp
  have c6: "length (y_batch ?b ! i) = ?W" using yr le lx ly by simp
  have c7: "?W = Max (set (lengths ?b))" using lb(1) by simp
  have c0: "order ! (k * nat bsize + i)
            = (if shuffle then permutation else [0..<length tokens]) ! (k * nat bsize + i)"
    by (simp add: order_def)
  from c0 inr li pad out c1 c2 c3 c4 c5 c6 c7 show ?thesis by blast
qed

theorem batches_generator_padding_witness:
  "\<exists>batches g'.
     batches_generator
        (create_dictionaries [[''hello''], [''hello'', ''world'']] [] [[''O''], [''O'', ''B'']])
        2 [[''hello''], [''hello'', ''world'']] [[''O''], [''O'', ''B'']] False True []
       = Inr (batches, g')
     \<and> lengths (batches ! 0) ! 0 = 1
     \<and> drop (lengths (batches ! 0) ! 0) (x_batch (batches ! 0) ! 0) = [1]
     \<and> drop (lengths (batches ! 0) ! 0) (y_batch (batches ! 0) ! 0) = [0]
     \<and> Max (set (lengths (batches ! 0))) = 2"
proof -
  let ?g = "create_dictionaries [[''hello''], [''hello'', ''world'']] [] [[''O''], [''O'', ''B'']]"
  let ?tokens = "[[''hello''], [''hello'', ''world'']]"
  let ?tags = "[[''O''], [''O'', ''B'']]"
  have "map_sum id fst (batches_generator ?g 2 ?tokens ?tags False True [])
      = Inr [\<lparr>x_batch = [[2, 1], [2, 3]], y_batch = [[0, 0], [0, 1]], lengths = [1, 2]\<rparr>]"
    by (simp add: batch_simps dict_simps upt_rec numeral_2_eq_2)
  then obtain batches g' where
    gen: "batches_generator ?g 2 ?tokens ?tags False True [] = Inr (batches, g')"
    and b: "batches = [\<lparr>x_batch = [[2, 1], [2, 3]], y_batch = [[0, 0], [0, 1]], lengths = [1, 2]\<rparr>]"
    by (cases "batches_generator ?g 2 ?tokens ?tags False True []") auto
  have eq: "\<forall>idx<length ?tokens. length (?tags ! idx) = length (?tokens ! idx)"
    by (simp add: less_Suc_eq numeral_2_eq_2)
  have perm: "False \<longrightarrow> length ([] :: nat list) = length ?tokens" by simp
  have k: "0 < length batches" and i: "0 < length (lengths (batches ! 0))" using b by simp_all
  have p: "value_of (token2idx ?g) ''<PAD>'' = Some 1" and q: "value_of (tag2idx ?g) ''O'' = Some 0"
    by (simp_all add: value_of_def dict_simps)
  from batches_generator_padding [OF gen eq perm k i] obtain pad outside idx W where
    "lengths (batches ! 0) ! 0 = length (?tokens ! idx)"
    "idx = (if False then [] else [0..<length ?tokens]) ! (0 * nat 2 + 0)"
    "value_of (token2idx ?g) ''<PAD>'' = Some pad"
    "value_of (tag2idx ?g) ''O'' = Some outside"
    "drop (lengths (batches ! 0) ! 0) (x_batch (batches ! 0) ! 0)
       = replicate (W - lengths (batches ! 0) ! 0) pad"
    "drop (lengths (batches ! 0) ! 0) (y_batch (batches ! 0) ! 0)
       = replicate (W - lengths (batches ! 0) ! 0) outside"
    "W = Max (set (lengths (batches ! 0)))"
    by blast
  with p q b have "lengths (batches ! 0) ! 0 = 1
     \<and> drop (lengths (batches ! 0) ! 0) (x_batch (batches ! 0) ! 0) = [1]
     \<and> drop (lengths (batches ! 0) ! 0) (y_batch (batches ! 0) ! 0) = [0]
     \<and> Max (set (lengths (batches ! 0))) = 2"
    by (simp add: upt_rec numeral_2_eq_2)
  with gen show ?thesis by blast
qed

section \<open>Properties of the predictor\<close>

lemma words2idxs_length:
  assumes "words2idxs g ws = Inr (ids, g1)"
  shows "length ids = length ws"
  using assms getitems_length by (auto simp: words2idxs_def split: sum.splits)

lemma forward_shape:
  assumes "forward m X = Inr scores"
  shows "shape scores = shape X @ [n_tags m]" "dtype X = TInt"
  using assms by (auto simp: forward_def split: if_splits)

text \<open>
  The scores of a single sentence of one token have the shape \<open>[1, 1, T]\<close>. Squeezing
  leaves at most one dimension, so there is no dimension 1 to take the maximum along.
\<close>

lemma max_indices_squeezed_one:
  assumes "shape scores = [1, 1, T]"
  shows "max_indices (squeeze scores) 1 = Inl IndexError"
  using assms by (simp add: max_indices_def squeeze_def)

lemma predict_sentence_one:
  assumes "length sentence = 1"
  shows "\<exists>e. predict_sentence g sentence tags verbosity = Inl e"
proof (cases "words2idxs g sentence")
  case (Inl e)
  then show ?thesis by (simp add: predict_sentence_def)
next
  case (Inr p)
  then obtain ids g1 where w: "words2idxs g sentence = Inr (ids, g1)" by (cases p) auto
  from words2idxs_length [OF w] assms have l: "length ids = 1" by simp
  show ?thesis
  proof (cases "forward (heap g1 (ner_tagger g1)) (unsqueeze0 (tensor_of_list ids))")
    case (Inl e)
    with w show ?thesis by (simp add: predict_sentence_def)
  next
    case (Inr scores)
    from forward_shape(1) [OF Inr] l
    have "shape scores = [1, 1, n_tags (heap g1 (ner_tagger g1))]"
      by (simp add: unsqueeze0_def tensor_of_list_def)
    from max_indices_squeezed_one [OF this] w Inr show ?thesis
      by (simp add: predict_sentence_def)
  qed
qed

lemma predict_sentence_empty:
  assumes "sentence = []"
  shows "\<exists>e. predict_sentence g sentence tags verbosity = Inl e"
proof (cases "words2idxs g sentence")
  case (Inl e)
  then show ?thesis by (simp add: predict_sentence_def)
next
  case (Inr p)
  then obtain ids g1 where w: "words2idxs g sentence = Inr (ids, g1)" by (cases p) auto
  from words2idxs_length [OF w] assms have "ids = []" by simp
  then have "forward (heap g1 (ner_tagger g1)) (unsqueeze0 (tensor_of_list ids)) = Inl RuntimeError"
    by (simp add: forward_def unsqueeze0_def tensor_of_list_def)
  with w show ?thesis by (simp add: predict_sentence_def)
qed

lemmas tensor_simps =
  predict_sentence_def forward_def unsqueeze0_def tensor_of_list_def squeeze_def
  max_indices_def to_list_def eq_tensor_def broadcast_shapes_def broadcast_index_def
  count_true_def argmax_def row_of_def example_state_def example_tagger_def
  vocab.defs state.defs

text \<open>
  Claim C10: a sentence of one token is never decoded. If the lookup of its token and
  the forward pass succeed, taking the maximum along dimension 1 of the squeezed scores
  raises \<^verbatim>\<open>IndexError\<close>; in every case \<open>predict_sentence\<close> raises. Whenever
  \<open>predict_sentence\<close> returns, the sentence has at least two tokens.
\<close>

theorem predict_sentence_partial:
  "(length sentence = 1 \<longrightarrow>
      (\<exists>e. predict_sentence g sentence tags verbosity = Inl e)
    \<and> (\<forall>ids g1 scores.
          words2idxs g sentence = Inr (ids, g1)
          \<and> forward (heap g1 (ner_tagger g1)) (unsqueeze0 (tensor_of_list ids)) = Inr scores
          \<longrightarrow> max_indices (squeeze scores) 1 = Inl IndexError))
   \<and> (\<forall>r. predict_sentence g sentence tags verbosity = Inr r \<longrightarrow> 2 \<le> length sentence)"
proof (intro conjI impI allI)
  assume "length sentence = 1"
  then show "\<exists>e. predict_sentence g sentence tags verbosity = Inl e"
    by (rule predict_sentence_one)
next
  fix ids g1 scores
  assume l: "length sentence = 1"
    and a: "words2idxs g sentence = Inr (ids, g1)
      \<and> forward (heap g1 (ner_tagger g1)) (unsqueeze0 (tensor_of_list ids)) = Inr scores"
  from words2idxs_length [of g sentence ids g1] a l have "length ids = 1" by simp
  with forward_shape(1) [of "heap g1 (ner_tagger g1)" "unsqueeze0 (tensor_of_list ids)" scores] a
  have "shape scores = [1, 1, n_tags (heap g1 (ner_tagger g1))]"
    by (simp add: unsqueeze0_def tensor_of_list_def)
  then show "max_indices (squeeze scores) 1 = Inl IndexError"
    by (rule max_indices_squeezed_one)
next
  fix r
  assume r: "predict_sentence g sentence tags verbosity = Inr r"
  show "2 \<le> length sentence"
  proof (rule ccontr)
    assume "\<not> 2 \<le> length sentence"
    then have "length sentence = 0 \<or> length sentence = 1" by arith
    then have "sentence = [] \<or> length sentence = 1" by simp
    with predict_sentence_empty [of sentence g tags verbosity]
      predict_sentence_one [of sentence g tags verbosity] r
    show False by auto
  qed
qed

theorem predict_sentence_partial_witness:
  "length [''hello''] = 1
   \<and> predict_sentence (example_state None) [''hello''] None 0 = Inl IndexError
   \<and> map_sum id fst (predict_sentence (example_state None) [''hello'', ''world''] None 0)
       = Inr \<lparr>res = [''O'', ''O''], printed = None\<rparr>
   \<and> 2 \<le> length [''hello'', ''world'']"
proof -
  have a: "predict_sentence (example_state None) [''hello''] None 0 = Inl IndexError"
    by (simp add: tensor_simps dict_simps)
  have b: "map_sum id fst (predict_sentence (example_state None) [''hello'', ''world''] None 0)
       = Inr \<lparr>res = [''O'', ''O''], printed = None\<rparr>"
    by (simp add: tensor_simps dict_simps upt_rec numeral_2_eq_2)
  then obtain r where
    r: "predict_sentence (example_state None) [''hello'', ''world''] None 0 = Inr r"
    by (cases "predict_sentence (example_state None) [''hello'', ''world''] None 0") auto
  from predict_sentence_partial [of "[''hello'', ''world'']" "example_state None" None 0] r
  have "2 \<le> length [''hello'', ''world'']" by blast
  with a b show ?thesis by simp
qed

text \<open>
  Claim C2 says that the count in \<^verbatim>\<open>Correct tags c/n\<close> is the number of positions where
  the predicted tag is the tag of the argument \<^verbatim>\<open>tags\<close>. The code compares with the
  global \<^verbatim>\<open>true_tags\<close>. Here the tagger predicts \<^verbatim>\<open>O O\<close>, the argument \<^verbatim>\<open>tags\<close> is
  \<^verbatim>\<open>O O\<close>, and the global \<^verbatim>\<open>true_tags\<close> is \<^verbatim>\<open>B B\<close>: both predictions agree with the
  argument, and the count reported is 0.
\<close>

theorem predict_sentence_counts_against_global:
  "map_sum id fst
     (predict_sentence (example_state (Some [''B'', ''B''])) [''hello'', ''world'']
        (Some [''O'', ''O'']) 1)
   = Inr \<lparr>res = [''O'', ''O''], printed = Some (0, 2)\<rparr>"
  by (simp add: tensor_simps dict_simps upt_rec numeral_2_eq_2)

text \<open>The argument \<^verbatim>\<open>tags\<close> is only tested for being empty: its entries are never read.\<close>

lemma predict_sentence_ignores_tags:
  assumes "tags1 \<noteq> []" "tags2 \<noteq> []"
  shows "predict_sentence g sentence (Some tags1) verbosity
         = predict_sentence g sentence (Some tags2) verbosity"
  using assms by (simp add: predict_sentence_def cong: sum.case_cong prod.case_cong)

end
